theory Spec2Isabelle
  imports Main "HOL-Library.Word"
begin

unbundle bit_operations_syntax

section \<open>pcan-id: a shallow embedding of \<open>src/pcan-id.c\<close>\<close>

text \<open>
  The program is a single C file: a static catalog of supported USB devices, the
  enumerator \<open>browse_devices\<close>, the argument parser \<open>parse_long\<close> and \<open>main\<close>.
  Everything the program does to the outside world goes through libc (\<open>getopt\<close>,
  \<open>strtoll\<close>, \<open>printf\<close>) and libusb. The embedding keeps the program text and takes
  the outside world as data: the options \<open>getopt\<close> yields, and a record of what each
  libusb call answers.
\<close>

subsection \<open>Machine integers and constants\<close>

type_synonym u8 = "8 word"
type_synonym u16 = "16 word"
type_synonym u32 = "32 word"

definition UCHAR_MAX :: u32 where
  "UCHAR_MAX = 255"

definition LLONG_MAX :: int where
  "LLONG_MAX = 9223372036854775807"

definition LLONG_MIN :: int where
  "LLONG_MIN = - 9223372036854775808"

definition ERANGE :: int where
  "ERANGE = 34"

definition LIBUSB_SUCCESS :: int where
  "LIBUSB_SUCCESS = 0"

subsection \<open>Host byte order: \<open>htole32\<close>, \<open>le32toh\<close> and \<open>memcpy\<close> of a \<open>uint32_t\<close>\<close>

text \<open>
  \<open>serial_nr\<close> is moved between the variable and the packet with \<open>memcpy\<close>, so the
  bytes that travel are the host's object representation of the value. The host
  byte order is a parameter of the model.
\<close>

datatype byte_order = LittleEndian | BigEndian

definition le_bytes :: "u32 \<Rightarrow> u8 list" where
  "le_bytes x = [ucast x, ucast (drop_bit 8 x), ucast (drop_bit 16 x), ucast (drop_bit 24 x)]"

definition le_value :: "u8 list \<Rightarrow> u32" where
  "le_value bs = ucast (bs ! 0) OR push_bit 8 (ucast (bs ! 1))
                 OR push_bit 16 (ucast (bs ! 2)) OR push_bit 24 (ucast (bs ! 3))"

definition bswap_32 :: "u32 \<Rightarrow> u32" where
  "bswap_32 x = le_value (rev (le_bytes x))"

definition htole32 :: "byte_order \<Rightarrow> u32 \<Rightarrow> u32" where
  "htole32 host x = (case host of LittleEndian \<Rightarrow> x | BigEndian \<Rightarrow> bswap_32 x)"

definition le32toh :: "byte_order \<Rightarrow> u32 \<Rightarrow> u32" where
  "le32toh host x = (case host of LittleEndian \<Rightarrow> x | BigEndian \<Rightarrow> bswap_32 x)"

text \<open>The four bytes of a \<open>uint32_t\<close> object in memory, lowest address first.\<close>

definition object_bytes :: "byte_order \<Rightarrow> u32 \<Rightarrow> u8 list" where
  "object_bytes host x = (case host of LittleEndian \<Rightarrow> le_bytes x | BigEndian \<Rightarrow> rev (le_bytes x))"

text \<open>The value of a \<open>uint32_t\<close> object whose memory holds the four bytes \<open>bs\<close>.\<close>

definition object_value :: "byte_order \<Rightarrow> u8 list \<Rightarrow> u32" where
  "object_value host bs = (case host of LittleEndian \<Rightarrow> le_value bs | BigEndian \<Rightarrow> le_value (rev bs))"

subsection \<open>The device catalog\<close>

record pcan_type =
  name :: string
  vendor_id :: u16
  product_id :: u16

text \<open>The array ends with the sentinel \<open>{0}\<close>; the list ends where the sentinel stands.\<close>

definition pcan_types :: "pcan_type list" where
  "pcan_types = [\<lparr>name = ''PCAN-USB'', vendor_id = 0x0c72, product_id = 0x000c\<rparr>]"

subsection \<open>What libusb answers\<close>

text \<open>
  A device of the system's list, as the program can observe it: the return codes of
  the calls made on it, the descriptor fields the program reads, and the state
  \<open>handle\<close> of the device behind the handle that \<open>libusb_open\<close> yields.
\<close>

record 'h usb_device =
  descriptor_r :: int
  idVendor :: u16
  idProduct :: u16
  iManufacturer :: u8
  iProduct :: u8
  bus_number :: u8
  device_address :: u8
  open_r :: int
  config_descriptor_r :: int
  string_descriptor :: "u8 \<Rightarrow> string"
  handle :: 'h

text \<open>
  The library: the return code of \<open>libusb_init\<close> and of \<open>libusb_get_device_list\<close>, the
  list itself, and the two directions of a bulk transfer. \<open>bulk_out\<close> is given the
  bytes sent; \<open>bulk_in\<close> is given the size of the buffer and answers the bytes received.
  Both answer the return code and the next state of the device.
\<close>

record 'h libusb =
  init_r :: int
  device_list_r :: int
  devices :: "'h usb_device list"
  bulk_out :: "'h \<Rightarrow> u8 list \<Rightarrow> int \<times> 'h"
  bulk_in :: "'h \<Rightarrow> nat \<Rightarrow> int \<times> u8 list \<times> 'h"
  host_order :: byte_order

text \<open>
  \<open>libusb_bulk_transfer(handle, endpoint, data, length, &transferred, timeout)\<close>: bit 7
  of the endpoint address gives the direction. An OUT transfer leaves the buffer as
  it is. An IN transfer overwrites the start of the buffer with the bytes received,
  never more than the buffer holds; what has not been overwritten keeps its content.
\<close>

definition libusb_bulk_transfer :: "'h libusb \<Rightarrow> 'h \<Rightarrow> u8 \<Rightarrow> u8 list \<Rightarrow> int \<times> u8 list \<times> 'h" where
  "libusb_bulk_transfer usb h endpoint data =
     (if endpoint AND 0x80 = 0
      then (case bulk_out usb h data of (r, h') \<Rightarrow> (r, data, h'))
      else (case bulk_in usb h (length data) of
              (r, received, h') \<Rightarrow>
                (r, take (length data) received @ drop (length received) data, h')))"

subsection \<open>Output and the trace of libusb calls\<close>

text \<open>
  A line of output is kept as the \<open>printf\<close> call that made it: one constructor for
  each format string of the source, with the arguments of the call.
\<close>

datatype line =
    HelpText
  | ListErrorLine int
  | DescriptorErrorLine int
  | ListLine nat u16 u16 u8 u8 string
  | OpenErrorLine int
  | RangeErrorLine
  | NoDigitsLine
  | InvalidArgumentLine string
  | InvalidDeviceIdLine u32 u32
  | UnknownOptionLine char
  | NoActionLine
  | InitErrorLine
  | NotFoundLine
  | ConfigErrorLine
  | StringLine string string
  | EmptyLine
  | TransferErrorLine int
  | DeviceIdLine u8
  | SerialNumberLine u32

datatype usb_call =
    Open nat
  | ClaimInterface
  | ResetDevice
  | BulkTransfer u8 "u8 list"
  | FreeConfigDescriptor
  | AttachKernelDriver
  | ReleaseInterface
  | Close
  | LibusbExit

datatype exit_status = Exit int | Segfault

subsection \<open>The state of the program\<close>

text \<open>
  The local variables of \<open>main\<close>, the pointers of \<open>struct pcan_ctx\<close> that the program
  uses (a null pointer is \<open>None\<close>), the two output streams and the libusb calls made
  on a device. \<open>dev_handle\<close> carries the state of the opened device.
\<close>

record 'h state =
  action :: char
  device_idx :: u32
  device_id :: u8
  serial_nr :: u32
  pkt :: "u8 list"
  device :: "(nat \<times> 'h usb_device) option"
  dev_handle :: "'h option"
  ctx_pcan_type :: "pcan_type option"
  stdout :: "line list"
  stderr :: "line list"
  calls :: "usb_call list"

text \<open>
  \<open>device_id\<close>, \<open>serial_nr\<close> and \<open>pkt\<close> are not initialised by the source; each is
  written before it is read, so the value given here is never seen.
\<close>

abbreviation initial_state :: "'h state" where
  "initial_state \<equiv>
     \<lparr>action = CHR 0x00, device_idx = 0, device_id = 0, serial_nr = 0,
      pkt = replicate 16 0, device = None, dev_handle = None, ctx_pcan_type = None,
      stdout = [], stderr = [], calls = []\<rparr>"

subsection \<open>\<open>browse_devices\<close>\<close>

text \<open>The scan of the catalog: the first entry with the device's vendor and product id.\<close>

definition lookup_type :: "'h usb_device \<Rightarrow> pcan_type option" where
  "lookup_type d = find (\<lambda>p. vendor_id p = idVendor d \<and> product_id p = idProduct d) pcan_types"

text \<open>
  The \<open>while\<close> loop over \<open>devices[c]\<close>: \<open>ds\<close> is the list from position \<open>c\<close> on and
  \<open>i\<close> counts the supported devices seen so far. A descriptor that cannot be read
  ends the loop (\<open>break\<close>).
\<close>

fun browse_loop :: "u8 \<Rightarrow> bool \<Rightarrow> 'h usb_device list \<Rightarrow> nat \<Rightarrow> nat \<Rightarrow> 'h state \<Rightarrow> 'h state" where
  "browse_loop idx list_devices [] c i st = st"
| "browse_loop idx list_devices (d # ds) c i st =
     (if descriptor_r d < 0
      then st\<lparr>stderr := stderr st @ [DescriptorErrorLine (descriptor_r d)]\<rparr>
      else
        (case lookup_type d of
           None \<Rightarrow> browse_loop idx list_devices ds (c + 1) i st
         | Some p \<Rightarrow>
             (let st1 =
                    (if list_devices
                     then st\<lparr>stdout := stdout st @
                            [ListLine i (idVendor d) (idProduct d) (bus_number d)
                               (device_address d) (name p)]\<rparr>
                     else st);
                  st2 =
                    (if i = unat idx
                     then
                       (let st' = st1\<lparr>ctx_pcan_type := Some p, device := Some (c, d),
                                      calls := calls st1 @ [Open c]\<rparr>
                        in if open_r d < 0
                           then st'\<lparr>stdout := stdout st' @ [OpenErrorLine (open_r d)]\<rparr>
                           else st'\<lparr>dev_handle := Some (handle d)\<rparr>)
                     else st1)
              in browse_loop idx list_devices ds (c + 1) (i + 1) st2)))"

definition browse_devices :: "'h libusb \<Rightarrow> u8 \<Rightarrow> bool \<Rightarrow> 'h state \<Rightarrow> int \<times> 'h state" where
  "browse_devices usb idx list_devices st =
     (if device_list_r usb < 0
      then (1, st\<lparr>stderr := stderr st @ [ListErrorLine (device_list_r usb)]\<rparr>)
      else (0, browse_loop idx list_devices (devices usb) 0 0
                 (st\<lparr>device := None, ctx_pcan_type := None, dev_handle := None\<rparr>)))"

subsection \<open>\<open>parse_long\<close>\<close>

text \<open>
  The value of a character as a digit, as \<open>strtoll\<close> reads it: \<open>0\<close> to \<open>9\<close>, and a
  letter of either case counts from ten.
\<close>

definition digit_of :: "char \<Rightarrow> nat option" where
  "digit_of ch =
     (let n = (of_char ch :: nat) in
      if 48 \<le> n \<and> n \<le> 57 then Some (n - 48)
      else if 97 \<le> n \<and> n \<le> 122 then Some (n - 87)
      else if 65 \<le> n \<and> n \<le> 90 then Some (n - 55)
      else None)"

definition in_base :: "nat \<Rightarrow> char \<Rightarrow> bool" where
  "in_base base ch = (case digit_of ch of None \<Rightarrow> False | Some v \<Rightarrow> v < base)"

text \<open>
  \<open>strtoll(arg, &endptr, base)\<close> as \<open>parse_long\<close> calls it: the text starts with a
  decimal digit, so there is no white space and no sign to skip, and the base is 10
  or 16. With base 16 a leading \<open>0x\<close> or \<open>0X\<close> is skipped when a hexadecimal digit
  follows it. The longest run of digits of the base is read; a value beyond
  \<open>LLONG_MAX\<close> is answered as \<open>LLONG_MAX\<close> with \<open>errno\<close> set to \<open>ERANGE\<close>. The result
  is the value, the offset of \<open>endptr\<close> in the text, and whether \<open>errno\<close> was set.
\<close>

definition strtoll :: "string \<Rightarrow> nat \<Rightarrow> int \<times> nat \<times> bool" where
  "strtoll s base =
     (let skip =
            (if base = 16 \<and> (take 2 s = ''0x'' \<or> take 2 s = ''0X'') \<and>
                (case drop 2 s of [] \<Rightarrow> False | ch # _ \<Rightarrow> in_base 16 ch)
             then 2 else 0);
          ds = takeWhile (in_base base) (drop skip s);
          v = foldl (\<lambda>a ch. a * base + (case digit_of ch of None \<Rightarrow> 0 | Some k \<Rightarrow> k)) 0 ds
      in if int v > LLONG_MAX then (LLONG_MAX, skip + length ds, True)
         else (int v, skip + length ds, False))"

text \<open>
  \<open>parse_long\<close> with the value of \<open>errno\<close> on entry: \<open>strtoll\<close> leaves \<open>errno\<close> as it is
  unless the value is out of range. The result is the message written to the
  standard error stream (the function then returns 1), or the value stored in
  \<open>*value\<close>: the \<open>long long\<close> converted to \<open>uint32_t\<close>.
\<close>

definition parse_long :: "int \<Rightarrow> string \<Rightarrow> line + u32" where
  "parse_long errno arg =
     (case arg of
        [] \<Rightarrow> Inl (InvalidArgumentLine arg)
      | ch0 # rest \<Rightarrow>
          if 48 \<le> (of_char ch0 :: nat) \<and> (of_char ch0 :: nat) \<le> 57
          then
            (case (if ch0 = CHR ''0'' \<and> (case rest of [] \<Rightarrow> False | ch1 # _ \<Rightarrow> ch1 = CHR ''x'')
                   then strtoll arg 16 else strtoll arg 10) of
               (val, endptr, erange) \<Rightarrow>
                 (let errno' = (if erange then ERANGE else errno) in
                  if errno' = ERANGE \<and> (val = LLONG_MAX \<or> val = LLONG_MIN)
                  then Inl RangeErrorLine
                  else if errno' \<noteq> 0 \<and> val = 0 then Inl NoDigitsLine
                  else if endptr = 0 then Inl NoDigitsLine
                  else Inr (word_of_int val)))
          else Inl (InvalidArgumentLine arg))"

subsection \<open>\<open>main\<close>: the options\<close>

text \<open>
  The \<open>getopt\<close> loop over the options in the order \<open>getopt\<close> yields them, each with
  its \<open>optarg\<close>. \<open>errno\<close> is 0 when the program starts, and a \<open>parse_long\<close> that
  returns 0 has left it so. The result is the exit status when the loop leaves the
  program, \<open>None\<close> when it runs to the end of the options.
\<close>

fun getopt_loop :: "(char \<times> string) list \<Rightarrow> 'h state \<Rightarrow> exit_status option \<times> 'h state" where
  "getopt_loop [] st = (None, st)"
| "getopt_loop ((opt, optarg) # opts) st =
     (if opt = CHR ''h'' then (Some (Exit 0), st\<lparr>stdout := stdout st @ [HelpText]\<rparr>)
      else if opt = CHR ''d'' then
        (case parse_long 0 optarg of
           Inl e \<Rightarrow> (Some (Exit 1), st\<lparr>stderr := stderr st @ [e]\<rparr>)
         | Inr v \<Rightarrow> getopt_loop opts (st\<lparr>device_idx := v\<rparr>))
      else if opt = CHR ''s'' then
        (case parse_long 0 optarg of
           Inl e \<Rightarrow> (Some (Exit 1), st\<lparr>stderr := stderr st @ [e]\<rparr>)
         | Inr v \<Rightarrow> getopt_loop opts (st\<lparr>serial_nr := v, action := CHR ''s''\<rparr>))
      else if opt = CHR ''i'' then
        (case parse_long 0 optarg of
           Inl e \<Rightarrow> (Some (Exit 1), st\<lparr>stderr := stderr st @ [e]\<rparr>)
         | Inr uint32 \<Rightarrow>
             if uint32 \<ge> UCHAR_MAX
             then (Some (Exit 1), st\<lparr>stderr := stderr st @ [InvalidDeviceIdLine uint32 UCHAR_MAX]\<rparr>)
             else getopt_loop opts (st\<lparr>device_id := ucast uint32, action := CHR ''i''\<rparr>))
      else if opt = CHR ''l'' then getopt_loop opts (st\<lparr>action := CHR ''l''\<rparr>)
      else if opt = CHR ''q'' then getopt_loop opts (st\<lparr>action := CHR ''q''\<rparr>)
      else (Some (Exit 1), st\<lparr>stderr := stderr st @ [UnknownOptionLine opt, HelpText]\<rparr>))"

subsection \<open>\<open>main\<close>: the actions\<close>

text \<open>
  One bulk transfer of \<open>pkt\<close> and the test of its return code, as the source writes
  it six times. \<open>dev_handle\<close> is not null where \<open>main\<close> makes a transfer.
\<close>

definition transfer :: "'h libusb \<Rightarrow> u8 \<Rightarrow> 'h state \<Rightarrow> 'h state" where
  "transfer usb endpoint st =
     (case dev_handle st of
        None \<Rightarrow> st
      | Some h \<Rightarrow>
          (case libusb_bulk_transfer usb h endpoint (pkt st) of
             (r, buf, h') \<Rightarrow>
               st\<lparr>dev_handle := Some h', pkt := buf,
                  calls := calls st @ [BulkTransfer endpoint (pkt st)],
                  stdout := stdout st @ (if r \<noteq> LIBUSB_SUCCESS then [TransferErrorLine r] else [])\<rparr>))"

text \<open>\<open>memset(pkt, 0, sizeof(pkt))\<close> and the two header bytes.\<close>

definition new_pkt :: "u8 \<Rightarrow> u8 \<Rightarrow> u8 list" where
  "new_pkt b0 b1 = (replicate 16 0)[0 := b0, 1 := b1]"

text \<open>\<open>memcpy(&pkt[2], &serial_nr, sizeof(serial_nr))\<close> after \<open>serial_nr = htole32(serial_nr)\<close>.\<close>

definition put_serial :: "byte_order \<Rightarrow> u32 \<Rightarrow> u8 list \<Rightarrow> u8 list" where
  "put_serial host sn p = take 2 p @ object_bytes host (htole32 host sn) @ drop 6 p"

text \<open>\<open>memcpy(&serial_nr, &pkt[2], sizeof(serial_nr))\<close> and then \<open>le32toh(serial_nr)\<close>.\<close>

definition get_serial :: "byte_order \<Rightarrow> u8 list \<Rightarrow> u32" where
  "get_serial host p = le32toh host (object_value host (take 4 (drop 2 p)))"

definition action_i :: "'h libusb \<Rightarrow> 'h state \<Rightarrow> 'h state" where
  "action_i usb st = transfer usb 0x1 (st\<lparr>pkt := (new_pkt 4 2)[2 := device_id st]\<rparr>)"

definition action_s :: "'h libusb \<Rightarrow> 'h state \<Rightarrow> 'h state" where
  "action_s usb st =
     (let st1 = st\<lparr>pkt := new_pkt 6 2\<rparr>;
          st2 = st1\<lparr>pkt := put_serial (host_order usb) (serial_nr st1) (pkt st1),
                    serial_nr := htole32 (host_order usb) (serial_nr st1)\<rparr>
      in transfer usb 0x1 st2)"

definition action_q :: "'h libusb \<Rightarrow> 'h state \<Rightarrow> 'h state" where
  "action_q usb st =
     (let st1 = transfer usb 0x1 (st\<lparr>pkt := new_pkt 4 1\<rparr>);
          st2 = transfer usb 0x81 st1;
          st3 = st2\<lparr>device_id := pkt st2 ! 2\<rparr>;
          st4 = st3\<lparr>stdout := stdout st3 @ [DeviceIdLine (device_id st3)]\<rparr>;
          st5 = transfer usb 0x1 (st4\<lparr>pkt := new_pkt 6 1\<rparr>);
          st6 = transfer usb 0x81 st5;
          st7 = st6\<lparr>serial_nr := get_serial (host_order usb) (pkt st6)\<rparr>
      in st7\<lparr>stdout := stdout st7 @ [SerialNumberLine (serial_nr st7)]\<rparr>)"

subsection \<open>\<open>main\<close>\<close>

text \<open>
  Lines 261 to 410: the device \<open>ctx->device\<close> is open. The three \<open>if (action == ...)\<close>
  blocks follow one another as in the source. \<open>main\<close> ends without a \<open>return\<close>, which
  is exit status 0. The trace holds the calls made on the device; \<open>libusb_set_debug\<close>
  and \<open>libusb_set_auto_detach_kernel_driver\<close> (compiled in for some versions of the
  library only) configure the library and are not recorded, and the return codes of
  claim, reset, attach and release are ignored by the source.
\<close>

definition perform :: "'h libusb \<Rightarrow> 'h usb_device \<Rightarrow> 'h state \<Rightarrow> exit_status \<times> 'h state" where
  "perform usb d st =
     (let st1 = st\<lparr>calls := calls st @ [ClaimInterface, ResetDevice]\<rparr> in
      if descriptor_r d < 0
      then (Exit 1, st1\<lparr>stderr := stderr st1 @ [DescriptorErrorLine (descriptor_r d)]\<rparr>)
      else if config_descriptor_r d \<noteq> 0
      then (Exit 1, st1\<lparr>stderr := stderr st1 @ [ConfigErrorLine]\<rparr>)
      else
        (let st2 = (if iManufacturer d \<noteq> 0
                    then st1\<lparr>stdout := stdout st1 @
                           [StringLine ''iManufacturer'' (string_descriptor d (iManufacturer d))]\<rparr>
                    else st1);
             st3 = (if iProduct d \<noteq> 0
                    then st2\<lparr>stdout := stdout st2 @
                           [StringLine ''iProduct'' (string_descriptor d (iProduct d))]\<rparr>
                    else st2);
             st4 = st3\<lparr>stdout := stdout st3 @ [EmptyLine]\<rparr>;
             st5 = (if action st4 = CHR ''i'' then action_i usb st4 else st4);
             st6 = (if action st5 = CHR ''s'' then action_s usb st5 else st5);
             st7 = (if action st6 = CHR ''q'' then action_q usb st6 else st6)
         in (Exit 0, st7\<lparr>calls := calls st7 @
               [FreeConfigDescriptor, AttachKernelDriver, ReleaseInterface, Close, LibusbExit]\<rparr>)))"

text \<open>
  Lines 232 to 259, then \<open>perform\<close>. \<open>browse_devices\<close> takes the index as a
  \<open>uint8_t\<close>: the call converts \<open>device_idx\<close>. \<open>browse_devices\<close> sets \<open>*device\<close> where
  it sets \<open>*dev_handle\<close>; a null \<open>ctx->device\<close> with a handle would be dereferenced
  by libusb.
\<close>

definition run :: "'h libusb \<Rightarrow> 'h state \<Rightarrow> exit_status \<times> 'h state" where
  "run usb st =
     (if action st = CHR 0x00
      then (Exit 1, st\<lparr>stderr := stderr st @ [NoActionLine, HelpText]\<rparr>)
      else if init_r usb \<noteq> 0
      then (Exit 1, st\<lparr>stderr := stderr st @ [InitErrorLine]\<rparr>)
      else
        (case browse_devices usb (ucast (device_idx st)) (action st = CHR ''l'') st of
           (r, st1) \<Rightarrow>
             if r \<noteq> 0 then (Exit r, st1)
             else
               (case dev_handle st1 of
                  None \<Rightarrow> (Exit 1, st1\<lparr>stderr := stderr st1 @ [NotFoundLine]\<rparr>)
                | Some h \<Rightarrow>
                    if action st1 = CHR ''l'' then (Exit 0, st1)
                    else
                      (case device st1 of
                         None \<Rightarrow> (Segfault, st1)
                       | Some (c, d) \<Rightarrow> perform usb d st1))))"

definition main :: "'h libusb \<Rightarrow> (char \<times> string) list \<Rightarrow> exit_status \<times> 'h state" where
  "main usb opts =
     (case getopt_loop opts initial_state of
        (Some status, st) \<Rightarrow> (status, st)
      | (None, st) \<Rightarrow> run usb st)"

subsection \<open>The enumeration, stated on lists\<close>

text \<open>
  What the loop of \<open>browse_devices\<close> is to compute, written with list functions: the
  devices before the first one whose descriptor cannot be read, those of them the
  catalog knows (each with its position in the system's list and its catalog entry),
  and the lines and the selection that follow from them.
\<close>

type_synonym 'h match = "nat \<times> 'h usb_device \<times> pcan_type"

definition readable :: "'h usb_device list \<Rightarrow> 'h usb_device list" where
  "readable ds = takeWhile (\<lambda>d. \<not> descriptor_r d < 0) ds"

definition matched_from :: "nat \<Rightarrow> 'h usb_device list \<Rightarrow> 'h match list" where
  "matched_from c ds =
     List.map_filter (\<lambda>(k, d). map_option (\<lambda>p. (k, d, p)) (lookup_type d))
       (enumerate c (readable ds))"

definition matched :: "'h usb_device list \<Rightarrow> 'h match list" where
  "matched ds = matched_from 0 ds"

definition list_line :: "nat \<Rightarrow> 'h match \<Rightarrow> line" where
  "list_line i m =
     (case m of (c, d, p) \<Rightarrow>
        ListLine i (idVendor d) (idProduct d) (bus_number d) (device_address d) (name p))"

definition open_error :: "'h match \<Rightarrow> line list" where
  "open_error m = (case m of (c, d, p) \<Rightarrow> if open_r d < 0 then [OpenErrorLine (open_r d)] else [])"

definition browse_output :: "u8 \<Rightarrow> bool \<Rightarrow> nat \<Rightarrow> 'h match list \<Rightarrow> line list" where
  "browse_output idx list_devices i ms =
     concat (map (\<lambda>(k, m). (if list_devices then [list_line k m] else [])
                            @ (if k = unat idx then open_error m else []))
               (enumerate i ms))"

definition selected :: "nat \<Rightarrow> 'h match list \<Rightarrow> 'h match option" where
  "selected k ms = (if k < length ms then Some (ms ! k) else None)"

definition is_list_line :: "line \<Rightarrow> bool" where
  "is_list_line l = (case l of ListLine _ _ _ _ _ _ \<Rightarrow> True | _ \<Rightarrow> False)"

definition listing :: "'h match list \<Rightarrow> line list" where
  "listing ms = map (\<lambda>(i, m). list_line i m) (enumerate 0 ms)"

definition in_catalog :: "'h usb_device \<Rightarrow> bool" where
  "in_catalog d =
     ((idVendor d, idProduct d) \<in> set (map (\<lambda>p. (vendor_id p, product_id p)) pcan_types))"

subsection \<open>Example systems\<close>

text \<open>
  A PCAN-USB adapter and a root hub. The state of the opened adapter counts the
  transfers made: it answers the first read with device id \<open>0x2A\<close> and the second
  with serial number \<open>0x01020304\<close>.
\<close>

definition pcan_device :: "nat usb_device" where
  "pcan_device =
     \<lparr>descriptor_r = 0, idVendor = 0x0c72, idProduct = 0x000c, iManufacturer = 0, iProduct = 0,
      bus_number = 1, device_address = 5, open_r = 0, config_descriptor_r = 0,
      string_descriptor = (\<lambda>_. []), handle = 0\<rparr>"

definition hub_device :: "nat usb_device" where
  "hub_device = pcan_device\<lparr>idVendor := 0x1d6b, idProduct := 0x0002, device_address := 1\<rparr>"

definition example_usb :: "nat libusb" where
  "example_usb =
     \<lparr>init_r = 0, device_list_r = 2,
      devices = [hub_device, pcan_device],
      bulk_out = (\<lambda>h data. (0, h + 1)),
      bulk_in = (\<lambda>h n. (0, if h = 1 then [4, 1, 0x2A] @ replicate 13 0
                              else [6, 1, 4, 3, 2, 1] @ replicate 10 0, h + 1)),
      host_order = BigEndian\<rparr>"

text \<open>The same system when the descriptor of the first device cannot be read.\<close>

definition unreadable_usb :: "nat libusb" where
  "unreadable_usb = example_usb\<lparr>devices := [hub_device\<lparr>descriptor_r := - 1\<rparr>, pcan_device]\<rparr>"

subsection \<open>Decimal arguments\<close>

text \<open>A text of decimal digits and the number it writes.\<close>

definition decimal_digit :: "char \<Rightarrow> bool" where
  "decimal_digit ch = (48 \<le> (of_char ch :: nat) \<and> (of_char ch :: nat) \<le> 57)"

definition decimal_value :: "string \<Rightarrow> nat" where
  "decimal_value s = foldl (\<lambda>a ch. a * 10 + (of_char ch - 48)) 0 s"

subsection \<open>The exchanges, stated on the answers of the device\<close>

definition err_line :: "int \<Rightarrow> line list" where
  "err_line r = (if r \<noteq> 0 then [TransferErrorLine r] else [])"

text \<open>What a buffer holds after an IN transfer that received \<open>rx\<close>.\<close>

definition received_into :: "u8 list \<Rightarrow> u8 list \<Rightarrow> u8 list" where
  "received_into buf rx = take (length buf) rx @ drop (length rx) buf"

text \<open>
  One request and its response on a device in state \<open>h\<close>: the request \<open>req\<close> is sent,
  then a packet is read into the same buffer. The result is the two return codes,
  the buffer after the read and the next state of the device.
\<close>

definition exchange :: "'h libusb \<Rightarrow> 'h \<Rightarrow> u8 list \<Rightarrow> int \<times> int \<times> u8 list \<times> 'h" where
  "exchange usb h req =
     (case bulk_out usb h req of
        (r1, h1) \<Rightarrow>
          (case bulk_in usb h1 (length req) of
             (r2, rx, h2) \<Rightarrow> (r1, r2, received_into req rx, h2)))"

definition is_transfer :: "usb_call \<Rightarrow> bool" where
  "is_transfer c = (case c of BulkTransfer _ _ \<Rightarrow> True | _ \<Rightarrow> False)"

subsection \<open>The run of \<open>main\<close>, stated on the answers of the library\<close>

text \<open>The message of the enumerator when a descriptor cannot be read.\<close>

definition descriptor_failure :: "'h usb_device list \<Rightarrow> line list" where
  "descriptor_failure ds =
     (case dropWhile (\<lambda>d. \<not> descriptor_r d < 0) ds of
        [] \<Rightarrow> []
      | d # _ \<Rightarrow> [DescriptorErrorLine (descriptor_r d)])"

text \<open>The index that \<open>browse_devices\<close> receives from \<open>main\<close>.\<close>

definition requested_index :: "'h state \<Rightarrow> nat" where
  "requested_index st = unat (ucast (device_idx st) :: u8)"

text \<open>The state in which \<open>browse_devices\<close> leaves \<open>main\<close>.\<close>

definition browsed :: "'h libusb \<Rightarrow> 'h state \<Rightarrow> 'h state" where
  "browsed usb st = snd (browse_devices usb (ucast (device_idx st)) (action st = CHR ''l'') st)"

text \<open>The lines printed between the reset of the device and the action.\<close>

definition header_lines :: "'h usb_device \<Rightarrow> line list" where
  "header_lines d =
     (if iManufacturer d \<noteq> 0
      then [StringLine ''iManufacturer'' (string_descriptor d (iManufacturer d))] else [])
     @ (if iProduct d \<noteq> 0
        then [StringLine ''iProduct'' (string_descriptor d (iProduct d))] else [])
     @ [EmptyLine]"

definition cleanup_calls :: "usb_call list" where
  "cleanup_calls = [FreeConfigDescriptor, AttachKernelDriver, ReleaseInterface, Close, LibusbExit]"

text \<open>The state in which \<open>main\<close> enters its action, the device being open.\<close>

definition prepared :: "'h libusb \<Rightarrow> 'h usb_device \<Rightarrow> 'h state \<Rightarrow> 'h state" where
  "prepared usb d st =
     (browsed usb st)\<lparr>calls := calls (browsed usb st) @ [ClaimInterface, ResetDevice],
                      stdout := stdout (browsed usb st) @ header_lines d\<rparr>"

text \<open>The example system when every transfer times out and nothing is received.\<close>

definition failing_usb :: "nat libusb" where
  "failing_usb = example_usb\<lparr>bulk_out := (\<lambda>h data. (- 7, h)), bulk_in := (\<lambda>h n. (- 7, [], h))\<rparr>"

text \<open>The example system without its adapter.\<close>

definition hub_only_usb :: "nat libusb" where
  "hub_only_usb = example_usb\<lparr>devices := [hub_device]\<rparr>"

subsection \<open>Command packets\<close>

text \<open>The buffers of the transfers made on an OUT endpoint, in order.\<close>

definition sent_packets :: "usb_call list \<Rightarrow> u8 list list" where
  "sent_packets cs =
     List.map_filter
       (\<lambda>c. case c of
              BulkTransfer ep buf \<Rightarrow> if ep AND 0x80 = 0 then Some buf else None
            | _ \<Rightarrow> None) cs"

text \<open>
  A packet of 16 bytes that is one of the four commands and is zero after the bytes
  that carry meaning: the header and the payload of one byte (set device id), of four
  bytes (set serial number) or of none (the two requests).
\<close>

definition command_packet :: "u8 list \<Rightarrow> bool" where
  "command_packet p =
     (length p = 16 \<and>
      ((take 2 p = [4, 2] \<and> drop 3 p = replicate 13 0)
       \<or> (take 2 p = [6, 2] \<and> drop 6 p = replicate 10 0)
       \<or> (take 2 p = [4, 1] \<and> drop 2 p = replicate 14 0)
       \<or> (take 2 p = [6, 1] \<and> drop 2 p = replicate 14 0)))"

section \<open>Properties\<close>

subsection \<open>Byte order\<close>

lemma le_value_le_bytes: "le_value (le_bytes x) = x"
proof (rule bit_word_eqI)
  fix n assume "n < LENGTH(32)"
  then have "n < 8 \<or> (8 \<le> n \<and> n < 16) \<or> (16 \<le> n \<and> n < 24) \<or> (24 \<le> n \<and> n < 32)"
    by auto
  then show "bit (le_value (le_bytes x)) n = bit x n"
    by (auto simp: le_value_def le_bytes_def bit_simps)
qed

lemma le_bytes_le_value: "le_bytes (le_value [a, b, c, d]) = [a, b, c, d]"
  unfolding le_bytes_def le_value_def
  apply simp
  apply (intro conjI bit_word_eqI)
     apply (auto simp: bit_simps dest: bit_imp_le_length)
  done

lemma length_le_bytes: "length (le_bytes x) = 4"
  by (simp add: le_bytes_def)

lemma four_bytes: "length bs = 4 \<Longrightarrow> \<exists>a b c d. bs = [a, b, c, d]"
  by (cases bs; simp; cases "tl bs"; simp; cases "tl (tl bs)"; simp; cases "tl (tl (tl bs))"; auto)

lemma bswap_32_le_value: "bswap_32 (le_value [a, b, c, d]) = le_value [d, c, b, a]"
  by (simp add: bswap_32_def le_bytes_le_value)

lemma object_bytes_htole32: "object_bytes host (htole32 host x) = le_bytes x"
proof (cases host)
  case LittleEndian
  then show ?thesis by (simp add: object_bytes_def htole32_def)
next
  case BigEndian
  have "le_bytes (bswap_32 x) = rev (le_bytes x)"
    unfolding bswap_32_def by (simp add: le_bytes_def[of x] le_bytes_le_value)
  with BigEndian show ?thesis by (simp add: object_bytes_def htole32_def)
qed

lemma le32toh_object_value:
  assumes "length bs = 4"
  shows "le32toh host (object_value host bs) = le_value bs"
proof -
  from assms obtain a b c d where bs: "bs = [a, b, c, d]"
    using four_bytes by blast
  show ?thesis
    by (cases host) (simp_all add: le32toh_def object_value_def bs bswap_32_le_value)
qed

lemma new_pkt_eq: "new_pkt b0 b1 = b0 # b1 # replicate 14 0"
  by (simp add: new_pkt_def numeral_eq_Suc)

lemma put_serial_new_pkt: "put_serial host sn (new_pkt b0 b1) = b0 # b1 # le_bytes sn @ replicate 10 0"
  by (simp add: put_serial_def new_pkt_eq object_bytes_htole32 numeral_eq_Suc)

lemma get_serial_le: "2 + 4 \<le> length p \<Longrightarrow> get_serial host p = le_value (take 4 (drop 2 p))"
  by (simp add: get_serial_def le32toh_object_value)

text \<open>
  C2. For every 32-bit serial number, writing it into bytes 2 to 5 of a command
  packet as the set-serial-number action does and reading bytes 2 to 5 back as the
  query does yields the number again, whatever the byte order of the writing host
  and of the reading host. The bytes in the packet are the little-endian bytes of
  the number: \<open>0x01020304\<close> travels as 4, 3, 2, 1 and is read back as \<open>0x01020304\<close>.
\<close>

theorem serial_round_trip:
  "get_serial host' (put_serial host sn (new_pkt 6 2)) = sn
   \<and> take 4 (drop 2 (put_serial host sn (new_pkt 6 2))) = le_bytes sn
   \<and> put_serial host 0x01020304 (new_pkt 6 2) = [6, 2, 4, 3, 2, 1] @ replicate 10 0
   \<and> get_serial host' ([6, 2, 4, 3, 2, 1] @ replicate 10 0) = 0x01020304"
proof -
  have enc: "put_serial host sn (new_pkt 6 2) = 6 # 2 # le_bytes sn @ replicate 10 0" for sn
    by (rule put_serial_new_pkt)
  have bytes: "take 4 (drop 2 (put_serial host sn (new_pkt 6 2))) = le_bytes sn" for sn
    by (simp add: enc length_le_bytes)
  have dec: "get_serial host' (put_serial host sn (new_pkt 6 2)) = sn" for sn
  proof -
    have "get_serial host' (put_serial host sn (new_pkt 6 2))
          = le_value (take 4 (drop 2 (put_serial host sn (new_pkt 6 2))))"
      by (rule get_serial_le) (simp add: enc length_le_bytes)
    then show ?thesis by (simp add: bytes le_value_le_bytes)
  qed
  have ex: "le_bytes 0x01020304 = [4, 3, 2, 1]"
    by (simp add: le_bytes_def drop_bit_eq_div)
  have p: "put_serial host 0x01020304 (new_pkt 6 2) = [6, 2, 4, 3, 2, 1] @ replicate 10 0"
    by (simp add: enc ex)
  from dec [of "0x01020304"] p bytes dec show ?thesis by simp
qed

subsection \<open>The loop of \<open>browse_devices\<close>\<close>

lemma matched_from_Nil: "matched_from c [] = []"
  by (simp add: matched_from_def readable_def map_filter_simps)

lemma matched_from_Cons:
  "matched_from c (d # ds) =
     (if descriptor_r d < 0 then []
      else (case lookup_type d of None \<Rightarrow> [] | Some p \<Rightarrow> [(c, d, p)]) @ matched_from (Suc c) ds)"
  by (simp add: matched_from_def readable_def map_filter_simps split: option.splits)

lemma browse_output_Nil: "browse_output idx l i [] = []"
  by (simp add: browse_output_def)

lemma browse_output_Cons:
  "browse_output idx l i (m # ms) =
     (if l then [list_line i m] else []) @ (if i = unat idx then open_error m else [])
     @ browse_output idx l (Suc i) ms"
  by (simp add: browse_output_def)

lemma browse_loop_stdout:
  "stdout (browse_loop idx l ds c i st) = stdout st @ browse_output idx l i (matched_from c ds)"
proof (induction ds arbitrary: c i st)
  case Nil
  show ?case by (simp add: matched_from_Nil browse_output_Nil)
next
  case (Cons d ds)
  show ?case
    by (simp add: Cons.IH matched_from_Cons browse_output_Nil browse_output_Cons
        list_line_def open_error_def Let_def split: option.splits)
qed

lemma browse_loop_selection:
  "(device (browse_loop idx l ds c i st), dev_handle (browse_loop idx l ds c i st),
    ctx_pcan_type (browse_loop idx l ds c i st), calls (browse_loop idx l ds c i st)) =
   (if i \<le> unat idx
    then (case selected (unat idx - i) (matched_from c ds) of
            None \<Rightarrow> (device st, dev_handle st, ctx_pcan_type st, calls st)
          | Some (k, d, p) \<Rightarrow>
              (Some (k, d), if open_r d < 0 then dev_handle st else Some (handle d),
               Some p, calls st @ [Open k]))
    else (device st, dev_handle st, ctx_pcan_type st, calls st))"
proof (induction ds arbitrary: c i st)
  case Nil
  show ?case by (simp add: matched_from_Nil selected_def)
next
  case (Cons d ds)
  show ?case
  proof (cases "descriptor_r d < 0")
    case True
    then show ?thesis by (simp add: matched_from_Cons selected_def)
  next
    case False
    show ?thesis
    proof (cases "lookup_type d")
      case None
      with False show ?thesis by (simp add: matched_from_Cons Cons.IH)
    next
      case (Some p)
      consider "i = unat idx" | "i < unat idx" | "unat idx < i" by linarith
      then show ?thesis
      proof cases
        case 1
        with False Some show ?thesis
          by (simp add: matched_from_Cons Cons.IH selected_def Let_def split: prod.splits)
      next
        case 2
        then have "unat idx - i = Suc (unat idx - Suc i)" by simp
        with 2 False Some show ?thesis
          by (simp add: matched_from_Cons Cons.IH selected_def Let_def split: prod.splits)
      next
        case 3
        with False Some show ?thesis
          by (simp add: matched_from_Cons Cons.IH selected_def Let_def split: prod.splits)
      qed
    qed
  qed
qed

lemma browse_loop_others:
  "action (browse_loop idx l ds c i st) = action st
   \<and> device_idx (browse_loop idx l ds c i st) = device_idx st
   \<and> device_id (browse_loop idx l ds c i st) = device_id st
   \<and> serial_nr (browse_loop idx l ds c i st) = serial_nr st
   \<and> pkt (browse_loop idx l ds c i st) = pkt st"
  by (induction ds arbitrary: c i st) (simp_all add: Let_def split: option.splits)

subsection \<open>The enumerator\<close>

lemma lookup_type_in_catalog: "(lookup_type d \<noteq> None) = in_catalog d"
  by (simp add: lookup_type_def in_catalog_def pcan_types_def)

lemma filter_list_browse_output:
  "filter is_list_line (browse_output idx True i ms) = map (\<lambda>(k, m). list_line k m) (enumerate i ms)"
  by (induction ms arbitrary: i)
     (auto simp: browse_output_Nil browse_output_Cons is_list_line_def list_line_def open_error_def
           split: prod.splits)

lemma matched_from_devices:
  "map (\<lambda>(c, d, p). d) (matched_from c ds) = filter in_catalog (readable ds)"
proof (induction ds arbitrary: c)
  case Nil
  show ?case by (simp add: matched_from_Nil readable_def)
next
  case (Cons d ds)
  have r: "readable (d # ds) = (if descriptor_r d < 0 then [] else d # readable ds)"
    by (simp add: readable_def)
  show ?case
    using lookup_type_in_catalog [of d]
    by (auto simp: matched_from_Cons r Cons.IH split: option.splits)
qed

lemma readable_all: "\<forall>d \<in> set ds. 0 \<le> descriptor_r d \<Longrightarrow> readable ds = ds"
  unfolding readable_def by (rule takeWhile_eq_all_conv [THEN iffD2]) auto

lemma browse_devices_ok:
  "0 \<le> device_list_r usb \<Longrightarrow>
   browse_devices usb idx l st =
     (0, browse_loop idx l (devices usb) 0 0
           (st\<lparr>device := None, ctx_pcan_type := None, dev_handle := None\<rparr>))"
  by (simp add: browse_devices_def)

lemma browse_loop_device:
  "device (browse_loop idx l ds 0 0 (st\<lparr>device := None, ctx_pcan_type := None, dev_handle := None\<rparr>))
   = map_option (\<lambda>(c, d, p). (c, d)) (selected (unat idx) (matched ds))"
  using browse_loop_selection [of idx l ds 0 0 "st\<lparr>device := None, ctx_pcan_type := None, dev_handle := None\<rparr>"]
  by (simp add: matched_def split: option.splits prod.splits)

text \<open>
  C7, as the code has it. When the device list is retrieved, the lines of the listing
  are the catalog-matched devices in enumeration order, numbered from 0 without gaps:
  \<open>matched\<close> holds exactly the devices of the catalog among those enumerated, so a
  device outside the catalog takes no index. The device selected is the one whose
  index is the requested one. The devices enumerated are those before the first
  device whose descriptor cannot be read; they are all devices when every descriptor
  can be read.
\<close>

theorem enumerator_indices:
  assumes "0 \<le> device_list_r usb"
  shows "filter is_list_line (stdout (snd (browse_devices usb idx True st)))
           = filter is_list_line (stdout st) @ listing (matched (devices usb))
         \<and> map (\<lambda>(c, d, p). d) (matched (devices usb)) = filter in_catalog (readable (devices usb))
         \<and> device (snd (browse_devices usb idx list_devices st))
             = map_option (\<lambda>(c, d, p). (c, d)) (selected (unat idx) (matched (devices usb)))
         \<and> ((\<forall>d \<in> set (devices usb). 0 \<le> descriptor_r d) \<longrightarrow> readable (devices usb) = devices usb)"
proof -
  have "filter is_list_line (stdout (snd (browse_devices usb idx True st)))
           = filter is_list_line (stdout st) @ listing (matched (devices usb))"
    by (simp add: browse_devices_ok [OF assms] browse_loop_stdout filter_list_browse_output
        listing_def matched_def)
  moreover have "map (\<lambda>(c, d, p). d) (matched (devices usb)) = filter in_catalog (readable (devices usb))"
    by (simp add: matched_def matched_from_devices)
  moreover have "device (snd (browse_devices usb idx list_devices st))
             = map_option (\<lambda>(c, d, p). (c, d)) (selected (unat idx) (matched (devices usb)))"
    by (simp add: browse_devices_ok [OF assms] browse_loop_device)
  ultimately show ?thesis using readable_all by blast
qed

lemma matched_example: "matched (devices example_usb) = [(1, pcan_device, hd pcan_types)]"
  by (simp add: matched_def matched_from_Cons matched_from_Nil example_usb_def hub_device_def
      pcan_device_def lookup_type_def pcan_types_def)

theorem enumerator_indices_witness:
  "0 \<le> device_list_r example_usb
   \<and> filter is_list_line (stdout (snd (browse_devices example_usb 0 True initial_state)))
       = [ListLine 0 0x0c72 0x000c 1 5 ''PCAN-USB'']
   \<and> filter in_catalog (readable (devices example_usb)) = [pcan_device]
   \<and> device (snd (browse_devices example_usb 0 False initial_state)) = Some (1, pcan_device)
   \<and> readable (devices example_usb) = devices example_usb"
proof -
  have h: "0 \<le> device_list_r example_usb" by (simp add: example_usb_def)
  have r: "\<forall>d \<in> set (devices example_usb). 0 \<le> descriptor_r d"
    by (simp add: example_usb_def hub_device_def pcan_device_def)
  have l: "listing (matched (devices example_usb)) = [ListLine 0 0x0c72 0x000c 1 5 ''PCAN-USB'']"
    by (simp add: matched_example listing_def enumerate_simps list_line_def pcan_types_def pcan_device_def)
  from enumerator_indices [OF h, of 0 initial_state False] r l h
  show ?thesis by (simp add: matched_example selected_def)
qed

theorem enumerator_indices_counterexample:
  "0 \<le> device_list_r unreadable_usb
   \<and> pcan_device \<in> set (devices unreadable_usb) \<and> in_catalog pcan_device
   \<and> stdout (snd (browse_devices unreadable_usb 0 True initial_state)) = []"
  by (simp add: unreadable_usb_def example_usb_def browse_devices_def hub_device_def
      in_catalog_def pcan_types_def pcan_device_def)

subsection \<open>The options\<close>

lemma getopt_loop_frame:
  "getopt_loop opts st = (x, st') \<Longrightarrow>
   calls st' = calls st \<and> device st' = device st \<and> dev_handle st' = dev_handle st
   \<and> ctx_pcan_type st' = ctx_pcan_type st \<and> pkt st' = pkt st"
proof (induction opts arbitrary: st x st')
  case Nil
  then show ?case by simp
next
  case (Cons o1 opts)
  obtain opt optarg where o1: "o1 = (opt, optarg)" by (cases o1)
  show ?case
    using Cons.prems unfolding o1
    by (auto split: if_splits sum.splits dest!: Cons.IH)
qed

lemma getopt_loop_output:
  "getopt_loop opts st = (None, st') \<Longrightarrow> stdout st' = stdout st \<and> stderr st' = stderr st"
proof (induction opts arbitrary: st st')
  case Nil
  then show ?case by simp
next
  case (Cons o1 opts)
  obtain opt optarg where o1: "o1 = (opt, optarg)" by (cases o1)
  show ?case
    using Cons.prems unfolding o1
    by (auto split: if_splits sum.splits dest!: Cons.IH)
qed

lemma decimal_digit_of: "decimal_digit ch \<Longrightarrow> digit_of ch = Some (of_char ch - 48)"
  by (simp add: decimal_digit_def digit_of_def Let_def)

lemma decimal_in_base: "decimal_digit ch \<Longrightarrow> in_base 10 ch"
  by (auto simp: in_base_def decimal_digit_of decimal_digit_def)

lemma decimal_foldl:
  "list_all decimal_digit s \<Longrightarrow>
   foldl (\<lambda>a ch. a * 10 + (case digit_of ch of None \<Rightarrow> 0 | Some k \<Rightarrow> k)) a s
   = foldl (\<lambda>a ch. a * 10 + (of_char ch - 48)) a s"
  by (induction s arbitrary: a) (simp_all add: decimal_digit_of)

lemma strtoll_decimal:
  assumes "list_all decimal_digit s" and "decimal_value s < 2 ^ 32"
  shows "strtoll s 10 = (int (decimal_value s), length s, False)"
proof -
  have t: "takeWhile (in_base 10) s = s"
    using assms(1) by (simp add: takeWhile_eq_all_conv list_all_iff decimal_in_base)
  have "int (decimal_value s) < int (2 ^ 32)" using assms(2) by (simp only: of_nat_less_iff)
  then have b: "\<not> int (decimal_value s) > LLONG_MAX" by (simp add: LLONG_MAX_def)
  show ?thesis
    using b by (simp add: strtoll_def t decimal_foldl [OF assms(1)] decimal_value_def)
qed

lemma parse_long_decimal:
  assumes "s \<noteq> []" and "list_all decimal_digit s" and "decimal_value s < 2 ^ 32"
  shows "parse_long 0 s = Inr (of_nat (decimal_value s))"
proof -
  from assms(1) obtain ch0 rest where s: "s = ch0 # rest" by (cases s) auto
  have d0: "decimal_digit ch0" using assms(2) by (simp add: s)
  have nx: "\<not> (case rest of [] \<Rightarrow> False | ch1 # _ \<Rightarrow> ch1 = CHR ''x'')"
    using assms(2) by (auto simp: s decimal_digit_def split: list.splits)
  have "int (decimal_value s) < int (2 ^ 32)" using assms(3) by (simp only: of_nat_less_iff)
  then have l: "int (decimal_value s) \<noteq> LLONG_MAX"
    by (simp add: LLONG_MAX_def)
  have "parse_long 0 (ch0 # rest) = Inr (of_nat (decimal_value (ch0 # rest)))"
    using d0 nx strtoll_decimal [OF assms(2,3)] l
    by (simp add: parse_long_def s decimal_digit_def ERANGE_def)
  then show ?thesis by (simp add: s)
qed

text \<open>
  C3, as the code has it. The guard of \<open>-i\<close> is \<open>uint32 >= UCHAR_MAX\<close>: where
  \<open>parse_long\<close> yields the 32-bit value \<open>v\<close>, the option is accepted when \<open>v < 255\<close>,
  and the device id is then \<open>v\<close>; it is refused with a message and exit status 1 when
  \<open>v \<ge> 255\<close>. A decimal argument below \<open>2 ^ 32\<close> yields the number it writes.
\<close>

theorem device_id_argument:
  "(parse_long 0 arg = Inr v \<longrightarrow>
      getopt_loop ((CHR ''i'', arg) # opts) st =
        (if v < 255 then getopt_loop opts (st\<lparr>device_id := ucast v, action := CHR ''i''\<rparr>)
         else (Some (Exit 1), st\<lparr>stderr := stderr st @ [InvalidDeviceIdLine v 255]\<rparr>))
      \<and> (v < 255 \<longrightarrow> unat (ucast v :: u8) = unat v))
   \<and> (arg \<noteq> [] \<and> list_all decimal_digit arg \<and> decimal_value arg < 2 ^ 32 \<longrightarrow>
        parse_long 0 arg = Inr (of_nat (decimal_value arg))
        \<and> unat (of_nat (decimal_value arg) :: u32) = decimal_value arg)"
proof -
  have small: "unat (ucast v :: u8) = unat v" if "v < 255"
  proof -
    from that have "unat v < 255" by (simp add: word_less_nat_alt)
    then show ?thesis by (simp add: unsigned_ucast_eq take_bit_nat_eq_self)
  qed
  have u: "unat (of_nat n :: u32) = n" if "n < 2 ^ 32" for n
    using that by (simp add: unat_of_nat)
  show ?thesis
    using small u [of "decimal_value arg"]
    by (auto simp: UCHAR_MAX_def not_le parse_long_decimal)
qed

lemma decimal_254: "list_all decimal_digit ''254'' \<and> decimal_value ''254'' = 254"
  by (simp add: decimal_digit_def decimal_value_def)

theorem device_id_argument_witness:
  "parse_long 0 ''254'' = Inr 254
   \<and> getopt_loop [(CHR ''i'', ''254'')] (initial_state :: nat state)
       = (None, initial_state\<lparr>device_id := 254, action := CHR ''i''\<rparr>)
   \<and> unat (ucast (254 :: u32) :: u8) = 254"
proof -
  have p: "parse_long 0 ''254'' = Inr 254"
    using device_id_argument [of "''254''" 0 "[]" "initial_state :: nat state"] decimal_254
    by simp
  from device_id_argument [of "''254''" 254 "[]" "initial_state :: nat state"] p
  show ?thesis by simp
qed

theorem device_id_argument_counterexample:
  "parse_long 0 ''255'' = Inr 255
   \<and> fst (main example_usb [(CHR ''i'', ''255'')]) = Exit 1
   \<and> stderr (snd (main example_usb [(CHR ''i'', ''255'')])) = [InvalidDeviceIdLine 255 255]
   \<and> calls (snd (main example_usb [(CHR ''i'', ''255'')])) = []"
proof -
  have d: "list_all decimal_digit ''255'' \<and> decimal_value ''255'' = 255"
    by (simp add: decimal_digit_def decimal_value_def)
  have p: "parse_long 0 ''255'' = Inr 255"
    using parse_long_decimal [of "''255''"] d by simp
  show ?thesis by (simp add: p main_def UCHAR_MAX_def)
qed

lemma device_id_256_refused:
  "fst (main example_usb [(CHR ''i'', ''256'')]) = Exit 1
   \<and> stderr (snd (main example_usb [(CHR ''i'', ''256'')])) = [InvalidDeviceIdLine 256 255]"
proof -
  have d: "list_all decimal_digit ''256'' \<and> decimal_value ''256'' = 256"
    by (simp add: decimal_digit_def decimal_value_def)
  have p: "parse_long 0 ''256'' = Inr 256"
    using parse_long_decimal [of "''256''"] d by simp
  show ?thesis by (simp add: p main_def UCHAR_MAX_def)
qed

subsection \<open>The actions\<close>

lemma transfer_out:
  assumes "dev_handle st = Some h" and "bulk_out usb h (pkt st) = (r, h')"
  shows "transfer usb 0x1 st =
           st\<lparr>dev_handle := Some h', calls := calls st @ [BulkTransfer 0x1 (pkt st)],
              stdout := stdout st @ err_line r\<rparr>"
  using assms
  by (simp add: transfer_def libusb_bulk_transfer_def err_line_def LIBUSB_SUCCESS_def)

lemma transfer_in:
  assumes "dev_handle st = Some h" and "bulk_in usb h (length (pkt st)) = (r, rx, h')"
  shows "transfer usb 0x81 st =
           st\<lparr>dev_handle := Some h', pkt := received_into (pkt st) rx,
              calls := calls st @ [BulkTransfer 0x81 (pkt st)],
              stdout := stdout st @ err_line r\<rparr>"
  using assms
  by (simp add: transfer_def libusb_bulk_transfer_def err_line_def LIBUSB_SUCCESS_def
      received_into_def)

lemma transfer_exchange:
  assumes "dev_handle st = Some h" and "exchange usb h (pkt st) = (r1, r2, resp, h2)"
  shows "transfer usb 0x81 (transfer usb 0x1 st) =
           st\<lparr>dev_handle := Some h2, pkt := resp,
              calls := calls st @ [BulkTransfer 0x1 (pkt st), BulkTransfer 0x81 (pkt st)],
              stdout := stdout st @ err_line r1 @ err_line r2\<rparr>"
proof -
  obtain a h1 where o: "bulk_out usb h (pkt st) = (a, h1)" by (cases "bulk_out usb h (pkt st)")
  obtain b rx h3 where i: "bulk_in usb h1 (length (pkt st)) = (b, rx, h3)"
    by (cases "bulk_in usb h1 (length (pkt st))")
  from assms(2) o i have e: "r1 = a" "r2 = b" "resp = received_into (pkt st) rx" "h2 = h3"
    by (simp_all add: exchange_def)
  have t1: "transfer usb 0x1 st =
           st\<lparr>dev_handle := Some h1, calls := calls st @ [BulkTransfer 0x1 (pkt st)],
              stdout := stdout st @ err_line a\<rparr>"
    by (rule transfer_out [OF assms(1) o])
  show ?thesis
    unfolding t1 e
    by (subst transfer_in [where h = h1 and r = b and rx = rx and h' = h3]) (simp_all add: i)
qed

lemma action_i_eq:
  assumes "dev_handle st = Some h"
    and "bulk_out usb h (4 # 2 # device_id st # replicate 13 0) = (r, h')"
  shows "action_i usb st =
           st\<lparr>pkt := 4 # 2 # device_id st # replicate 13 0, dev_handle := Some h',
              calls := calls st @ [BulkTransfer 0x1 (4 # 2 # device_id st # replicate 13 0)],
              stdout := stdout st @ err_line r\<rparr>"
proof -
  have p: "(new_pkt 4 2)[2 := device_id st] = 4 # 2 # device_id st # replicate 13 0"
    by (simp add: new_pkt_eq numeral_eq_Suc)
  show ?thesis
    unfolding action_i_def p
    by (subst transfer_out [where h = h and r = r and h' = h']) (simp_all add: assms)
qed

lemma action_s_eq:
  assumes "dev_handle st = Some h"
    and "bulk_out usb h (6 # 2 # le_bytes (serial_nr st) @ replicate 10 0) = (r, h')"
  shows "action_s usb st =
           st\<lparr>pkt := 6 # 2 # le_bytes (serial_nr st) @ replicate 10 0,
              serial_nr := htole32 (host_order usb) (serial_nr st), dev_handle := Some h',
              calls := calls st @ [BulkTransfer 0x1 (6 # 2 # le_bytes (serial_nr st) @ replicate 10 0)],
              stdout := stdout st @ err_line r\<rparr>"
  unfolding action_s_def Let_def
  by (subst transfer_out [where h = h and r = r and h' = h'])
     (simp_all add: assms put_serial_new_pkt)

lemma length_received_into: "length (received_into buf rx) = length buf"
  by (simp add: received_into_def)

lemma action_q_eq:
  assumes h: "dev_handle st = Some h"
    and e1: "exchange usb h (new_pkt 4 1) = (r1, r2, resp1, h2)"
    and e2: "exchange usb h2 (new_pkt 6 1) = (r3, r4, resp2, h4)"
  shows "action_q usb st =
           st\<lparr>pkt := resp2, device_id := resp1 ! 2,
              serial_nr := le_value (take 4 (drop 2 resp2)), dev_handle := Some h4,
              calls := calls st @
                [BulkTransfer 0x1 (new_pkt 4 1), BulkTransfer 0x81 (new_pkt 4 1),
                 BulkTransfer 0x1 (new_pkt 6 1), BulkTransfer 0x81 (new_pkt 6 1)],
              stdout := stdout st @ err_line r1 @ err_line r2 @ [DeviceIdLine (resp1 ! 2)]
                        @ err_line r3 @ err_line r4
                        @ [SerialNumberLine (le_value (take 4 (drop 2 resp2)))]\<rparr>"
proof -
  have l2: "length resp2 = 16"
    using e2 by (auto simp: exchange_def length_received_into new_pkt_eq split: prod.splits)
  have g: "get_serial (host_order usb) resp2 = le_value (take 4 (drop 2 resp2))"
    by (rule get_serial_le) (simp add: l2)
  have x1: "transfer usb 0x81 (transfer usb 0x1 (st\<lparr>pkt := new_pkt 4 1\<rparr>)) =
        st\<lparr>pkt := resp1, dev_handle := Some h2,
           calls := calls st @ [BulkTransfer 0x1 (new_pkt 4 1), BulkTransfer 0x81 (new_pkt 4 1)],
           stdout := stdout st @ err_line r1 @ err_line r2\<rparr>"
    by (subst transfer_exchange [where h = h and ?r1.0 = r1 and ?r2.0 = r2 and resp = resp1 and ?h2.0 = h2])
       (simp_all add: h e1)
  define s4 where "s4 = st\<lparr>pkt := new_pkt 6 1, device_id := resp1 ! 2, dev_handle := Some h2,
           calls := calls st @ [BulkTransfer 0x1 (new_pkt 4 1), BulkTransfer 0x81 (new_pkt 4 1)],
           stdout := stdout st @ err_line r1 @ err_line r2 @ [DeviceIdLine (resp1 ! 2)]\<rparr>"
  define s6 where "s6 = transfer usb 0x81 (transfer usb 0x1 s4)"
  have x2: "s6 =
        s4\<lparr>dev_handle := Some h4, pkt := resp2,
           calls := calls s4 @ [BulkTransfer 0x1 (pkt s4), BulkTransfer 0x81 (pkt s4)],
           stdout := stdout s4 @ err_line r3 @ err_line r4\<rparr>"
    unfolding s6_def by (rule transfer_exchange [where h = h2]) (simp_all add: s4_def e2)
  have s4': "(st\<lparr>pkt := resp1, dev_handle := Some h2,
           calls := calls st @ [BulkTransfer 0x1 (new_pkt 4 1), BulkTransfer 0x81 (new_pkt 4 1)],
           stdout := stdout st @ err_line r1 @ err_line r2, device_id := resp1 ! 2,
           stdout := stdout st @ err_line r1 @ err_line r2 @ [DeviceIdLine (resp1 ! 2)],
           pkt := new_pkt 6 1\<rparr>) = s4"
    unfolding s4_def by (intro state.equality) simp_all
  have "action_q usb st =
          s6\<lparr>serial_nr := get_serial (host_order usb) (pkt s6),
             stdout := stdout s6 @ [SerialNumberLine (get_serial (host_order usb) (pkt s6))]\<rparr>"
    unfolding action_q_def Let_def x1 s6_def using s4' by simp
  then show ?thesis
    unfolding x2 by (intro state.equality) (simp_all add: s4_def g)
qed

subsection \<open>From \<open>main\<close> to the action\<close>

lemma browse_loop_stderr:
  "stderr (browse_loop idx l ds c i st) = stderr st @ descriptor_failure ds"
  by (induction ds arbitrary: c i st)
     (simp_all add: descriptor_failure_def Let_def split: option.splits)

lemma matched_from_readable:
  "(k, d, p) \<in> set (matched_from c ds) \<Longrightarrow> \<not> descriptor_r d < 0 \<and> lookup_type d = Some p"
  by (induction ds arbitrary: c)
     (auto simp: matched_from_Nil matched_from_Cons split: if_splits option.splits)

lemma selected_in_set: "selected k ms = Some m \<Longrightarrow> m \<in> set ms"
  by (auto simp: selected_def split: if_splits)

lemma browsed_fields:
  assumes "0 \<le> device_list_r usb"
  shows "action (browsed usb st) = action st"
    and "device_idx (browsed usb st) = device_idx st"
    and "device_id (browsed usb st) = device_id st"
    and "serial_nr (browsed usb st) = serial_nr st"
    and "pkt (browsed usb st) = pkt st"
    and "stdout (browsed usb st)
           = stdout st @ browse_output (ucast (device_idx st)) (action st = CHR ''l'') 0 (matched (devices usb))"
    and "stderr (browsed usb st) = stderr st @ descriptor_failure (devices usb)"
  by (simp_all add: browsed_def browse_devices_ok [OF assms] browse_loop_others
      browse_loop_stdout browse_loop_stderr matched_def)

lemma browsed_selection:
  assumes "0 \<le> device_list_r usb"
  shows "(device (browsed usb st), dev_handle (browsed usb st), calls (browsed usb st)) =
     (case selected (requested_index st) (matched (devices usb)) of
        None \<Rightarrow> (None, None, calls st)
      | Some (k, d, p) \<Rightarrow>
          (Some (k, d), if open_r d < 0 then None else Some (handle d), calls st @ [Open k]))"
  using browse_loop_selection [of "ucast (device_idx st)" "action st = CHR ''l''" "devices usb" 0 0
      "st\<lparr>device := None, ctx_pcan_type := None, dev_handle := None\<rparr>"]
  by (simp add: browsed_def browse_devices_ok [OF assms] matched_def requested_index_def
      split: option.splits prod.splits)

lemma transfer_action: "action (transfer usb ep st) = action st"
  by (simp add: transfer_def split: option.splits prod.splits)

lemma action_i_action: "action (action_i usb st) = action st"
  by (simp add: action_i_def transfer_action)

lemma action_s_action: "action (action_s usb st) = action st"
  by (simp add: action_s_def Let_def transfer_action)

lemma perform_eq:
  assumes "\<not> descriptor_r d < 0" and "config_descriptor_r d = 0"
  shows "perform usb d st =
     (Exit 0,
      (let s4 = st\<lparr>calls := calls st @ [ClaimInterface, ResetDevice],
                    stdout := stdout st @ header_lines d\<rparr>;
           s7 = (if action st = CHR ''i'' then action_i usb s4
                 else if action st = CHR ''s'' then action_s usb s4
                 else if action st = CHR ''q'' then action_q usb s4
                 else s4)
       in s7\<lparr>calls := calls s7 @ cleanup_calls\<rparr>))"
  using assms
  by (simp add: perform_def Let_def header_lines_def cleanup_calls_def
      action_i_action action_s_action)

lemma run_found:
  assumes "action st \<noteq> CHR 0x00" and "init_r usb = 0" and "0 \<le> device_list_r usb"
    and "selected (requested_index st) (matched (devices usb)) = Some (k, d, p)"
    and "\<not> open_r d < 0"
  shows "run usb st =
           (if action st = CHR ''l'' then (Exit 0, browsed usb st) else perform usb d (browsed usb st))"
    and "dev_handle (browsed usb st) = Some (handle d)"
    and "calls (browsed usb st) = calls st @ [Open k]"
    and "\<not> descriptor_r d < 0"
proof -
  from browsed_selection [OF assms(3), of st] assms(4,5)
  have s: "device (browsed usb st) = Some (k, d)" "dev_handle (browsed usb st) = Some (handle d)"
    "calls (browsed usb st) = calls st @ [Open k]"
    by simp_all
  have b: "browse_devices usb (ucast (device_idx st)) (action st = CHR ''l'') st = (0, browsed usb st)"
    by (simp add: browsed_def browse_devices_ok [OF assms(3)])
  show "run usb st =
           (if action st = CHR ''l'' then (Exit 0, browsed usb st) else perform usb d (browsed usb st))"
    using assms(1,2) s by (simp add: run_def b browsed_fields(1) [OF assms(3)])
  show "dev_handle (browsed usb st) = Some (handle d)" by (rule s(2))
  show "calls (browsed usb st) = calls st @ [Open k]" by (rule s(3))
  show "\<not> descriptor_r d < 0"
    using matched_from_readable [of k d p 0 "devices usb"] selected_in_set [OF assms(4)]
    by (simp add: matched_def)
qed

lemma run_not_found:
  assumes "action st \<noteq> CHR 0x00" and "init_r usb = 0" and "0 \<le> device_list_r usb"
    and "selected (requested_index st) (matched (devices usb)) = None"
  shows "run usb st = (Exit 1, (browsed usb st)\<lparr>stderr := stderr (browsed usb st) @ [NotFoundLine]\<rparr>)"
    and "calls (browsed usb st) = calls st"
proof -
  from browsed_selection [OF assms(3), of st] assms(4)
  have s: "dev_handle (browsed usb st) = None" "calls (browsed usb st) = calls st"
    by simp_all
  have b: "browse_devices usb (ucast (device_idx st)) (action st = CHR ''l'') st = (0, browsed usb st)"
    by (simp add: browsed_def browse_devices_ok [OF assms(3)])
  show "run usb st = (Exit 1, (browsed usb st)\<lparr>stderr := stderr (browsed usb st) @ [NotFoundLine]\<rparr>)"
    using assms(1,2) s by (simp add: run_def b)
  show "calls (browsed usb st) = calls st" by (rule s(2))
qed

lemma main_run:
  assumes "getopt_loop opts initial_state = (None, st)"
  shows "main usb opts = run usb st" and "stdout st = []" and "stderr st = []" and "calls st = []"
  using assms getopt_loop_output [OF assms] getopt_loop_frame [OF assms]
  by (simp_all add: main_def)

lemma browse_output_False:
  "browse_output idx False i ms =
     (if i \<le> unat idx
      then (case selected (unat idx - i) ms of None \<Rightarrow> [] | Some m \<Rightarrow> open_error m)
      else [])"
proof (induction ms arbitrary: i)
  case Nil
  show ?case by (simp add: browse_output_Nil selected_def)
next
  case (Cons m ms)
  consider "i = unat idx" | "i < unat idx" | "unat idx < i" by linarith
  then show ?case
  proof cases
    case 1
    then show ?thesis by (simp add: browse_output_Cons Cons.IH selected_def)
  next
    case 2
    then have "unat idx - i = Suc (unat idx - Suc i)" by simp
    with 2 show ?thesis by (simp add: browse_output_Cons Cons.IH selected_def)
  next
    case 3
    then show ?thesis by (simp add: browse_output_Cons Cons.IH)
  qed
qed

lemma main_performs:
  assumes g: "getopt_loop opts initial_state = (None, st)"
    and a: "action st \<noteq> CHR 0x00" "action st \<noteq> CHR ''l''"
    and u: "init_r usb = 0" "0 \<le> device_list_r usb"
    and s: "selected (requested_index st) (matched (devices usb)) = Some (k, d, p)"
    and o: "\<not> open_r d < 0" and c: "config_descriptor_r d = 0"
  shows "main usb opts =
     (Exit 0,
      (let s7 = (if action st = CHR ''i'' then action_i usb (prepared usb d st)
                 else if action st = CHR ''s'' then action_s usb (prepared usb d st)
                 else if action st = CHR ''q'' then action_q usb (prepared usb d st)
                 else prepared usb d st)
       in s7\<lparr>calls := calls s7 @ cleanup_calls\<rparr>))"
    and "dev_handle (prepared usb d st) = Some (handle d)"
    and "calls (prepared usb d st) = [Open k, ClaimInterface, ResetDevice]"
    and "stdout (prepared usb d st) = header_lines d"
    and "stderr (prepared usb d st) = descriptor_failure (devices usb)"
    and "device_id (prepared usb d st) = device_id st"
    and "serial_nr (prepared usb d st) = serial_nr st"
proof -
  note r = run_found [OF a(1) u s o]
  note m = main_run [OF g]
  show "main usb opts =
     (Exit 0,
      (let s7 = (if action st = CHR ''i'' then action_i usb (prepared usb d st)
                 else if action st = CHR ''s'' then action_s usb (prepared usb d st)
                 else if action st = CHR ''q'' then action_q usb (prepared usb d st)
                 else prepared usb d st)
       in s7\<lparr>calls := calls s7 @ cleanup_calls\<rparr>))"
    using a(2) by (simp add: m(1) r(1) perform_eq [OF r(4) c] prepared_def Let_def
        browsed_fields(1) [OF u(2)])
  show "dev_handle (prepared usb d st) = Some (handle d)"
    by (simp add: prepared_def r(2))
  show "calls (prepared usb d st) = [Open k, ClaimInterface, ResetDevice]"
    by (simp add: prepared_def r(3) m(4))
  have "browse_output (ucast (device_idx st)) False 0 (matched (devices usb)) = []"
    using s o by (simp add: browse_output_False requested_index_def open_error_def)
  then show "stdout (prepared usb d st) = header_lines d"
    using a(2) by (simp add: prepared_def browsed_fields(6) [OF u(2)] m(2))
  show "stderr (prepared usb d st) = descriptor_failure (devices usb)"
    by (simp add: prepared_def browsed_fields(7) [OF u(2)] m(3))
  show "device_id (prepared usb d st) = device_id st"
    by (simp add: prepared_def browsed_fields(3) [OF u(2)])
  show "serial_nr (prepared usb d st) = serial_nr st"
    by (simp add: prepared_def browsed_fields(4) [OF u(2)])
qed

subsection \<open>The set actions\<close>

lemma main_set_device_id:
  fixes usb :: "'h libusb" and st :: "'h state"
  assumes g: "getopt_loop opts initial_state = (None, st)"
    and a: "action st = CHR ''i''"
    and u: "init_r usb = 0" "0 \<le> device_list_r usb"
    and s: "selected (requested_index st) (matched (devices usb)) = Some (k, d, p)"
    and o: "\<not> open_r d < 0" and c: "config_descriptor_r d = 0"
  shows "calls (snd (main usb opts)) =
           [Open k, ClaimInterface, ResetDevice,
            BulkTransfer 0x1 (4 # 2 # device_id st # replicate 13 0)] @ cleanup_calls"
proof -
  have a': "action st \<noteq> CHR 0x00" "action st \<noteq> CHR ''l''" using a by simp_all
  note m = main_performs [OF g a' u s o c]
  obtain r h' where b: "bulk_out usb (handle d) (4 # 2 # device_id st # replicate 13 0) = (r, h')"
    by (cases "bulk_out usb (handle d) (4 # 2 # device_id st # replicate 13 0)")
  have "calls (action_i usb (prepared usb d st)) =
          [Open k, ClaimInterface, ResetDevice,
           BulkTransfer 0x1 (4 # 2 # device_id st # replicate 13 0)]"
    by (subst action_i_eq [where h = "handle d" and r = r and h' = h'])
       (simp_all add: m(2,3,6) b)
  then show ?thesis by (simp add: m(1) a Let_def)
qed

lemma main_set_serial:
  fixes usb :: "'h libusb" and st :: "'h state"
  assumes g: "getopt_loop opts initial_state = (None, st)"
    and a: "action st = CHR ''s''"
    and u: "init_r usb = 0" "0 \<le> device_list_r usb"
    and s: "selected (requested_index st) (matched (devices usb)) = Some (k, d, p)"
    and o: "\<not> open_r d < 0" and c: "config_descriptor_r d = 0"
  shows "calls (snd (main usb opts)) =
           [Open k, ClaimInterface, ResetDevice,
            BulkTransfer 0x1 (6 # 2 # le_bytes (serial_nr st) @ replicate 10 0)] @ cleanup_calls"
proof -
  have a': "action st \<noteq> CHR 0x00" "action st \<noteq> CHR ''l''" using a by simp_all
  note m = main_performs [OF g a' u s o c]
  obtain r h' where b: "bulk_out usb (handle d) (6 # 2 # le_bytes (serial_nr st) @ replicate 10 0) = (r, h')"
    by (cases "bulk_out usb (handle d) (6 # 2 # le_bytes (serial_nr st) @ replicate 10 0)")
  have "calls (action_s usb (prepared usb d st)) =
          [Open k, ClaimInterface, ResetDevice,
           BulkTransfer 0x1 (6 # 2 # le_bytes (serial_nr st) @ replicate 10 0)]"
    by (subst action_s_eq [where h = "handle d" and r = r and h' = h'])
       (simp_all add: m(2,3,7) b)
  then show ?thesis by (simp add: m(1) a Let_def)
qed

text \<open>
  C6. When the device is opened, the run with action \<open>i\<close> makes exactly one bulk
  transfer, on the OUT endpoint 1, of the packet 4, 2, device id and thirteen zero
  bytes; the run with action \<open>s\<close> makes exactly one, of the packet 6, 2, the serial
  number in little-endian order and ten zero bytes. No transfer on the IN endpoint is
  made: the calls before the transfer open, claim and reset the device, the calls
  after it release and close it.
\<close>

theorem set_actions_send_once:
  fixes usb :: "'h libusb" and st :: "'h state"
  assumes "getopt_loop opts initial_state = (None, st)"
    and "init_r usb = 0" and "0 \<le> device_list_r usb"
    and "selected (requested_index st) (matched (devices usb)) = Some (k, d, p)"
    and "\<not> open_r d < 0" and "config_descriptor_r d = 0"
  shows "(action st = CHR ''i'' \<longrightarrow>
            calls (snd (main usb opts)) =
              [Open k, ClaimInterface, ResetDevice,
               BulkTransfer 0x1 (4 # 2 # device_id st # replicate 13 0),
               FreeConfigDescriptor, AttachKernelDriver, ReleaseInterface, Close, LibusbExit])
       \<and> (action st = CHR ''s'' \<longrightarrow>
            calls (snd (main usb opts)) =
              [Open k, ClaimInterface, ResetDevice,
               BulkTransfer 0x1 (6 # 2 # le_bytes (serial_nr st) @ replicate 10 0),
               FreeConfigDescriptor, AttachKernelDriver, ReleaseInterface, Close, LibusbExit])"
  using main_set_device_id [OF assms(1) _ assms(2-6)] main_set_serial [OF assms(1) _ assms(2-6)]
  by (simp add: cleanup_calls_def)

lemma parse_42: "parse_long 0 ''42'' = Inr 42"
proof -
  have "list_all decimal_digit ''42'' \<and> decimal_value ''42'' = 42"
    by (simp add: decimal_digit_def decimal_value_def)
  then show ?thesis using parse_long_decimal [of "''42''"] by simp
qed

lemma parse_hex_serial: "parse_long 0 ''0x01020304'' = Inr 0x01020304"
  by (simp add: parse_long_def strtoll_def in_base_def digit_of_def LLONG_MAX_def LLONG_MIN_def
      ERANGE_def)

lemma selected_example:
  "selected 0 (matched (devices example_usb)) = Some (1, pcan_device, hd pcan_types)"
  by (simp add: matched_example selected_def)

lemma le_bytes_example: "le_bytes 0x01020304 = [4, 3, 2, 1]"
  by (simp add: le_bytes_def drop_bit_eq_div)

theorem set_actions_send_once_witness:
  "calls (snd (main example_usb [(CHR ''i'', ''42'')])) =
     [Open 1, ClaimInterface, ResetDevice, BulkTransfer 0x1 (4 # 2 # 42 # replicate 13 0),
      FreeConfigDescriptor, AttachKernelDriver, ReleaseInterface, Close, LibusbExit]
   \<and> calls (snd (main example_usb [(CHR ''s'', ''0x01020304'')])) =
     [Open 1, ClaimInterface, ResetDevice, BulkTransfer 0x1 (6 # 2 # [4, 3, 2, 1] @ replicate 10 0),
      FreeConfigDescriptor, AttachKernelDriver, ReleaseInterface, Close, LibusbExit]"
proof -
  have u: "init_r example_usb = 0" "0 \<le> device_list_r example_usb"
    by (simp_all add: example_usb_def)
  have d: "\<not> open_r pcan_device < 0" "config_descriptor_r pcan_device = 0"
    by (simp_all add: pcan_device_def)
  have gi: "getopt_loop [(CHR ''i'', ''42'')] (initial_state :: nat state)
             = (None, initial_state\<lparr>device_id := 42, action := CHR ''i''\<rparr>)"
    by (simp add: parse_42 UCHAR_MAX_def)
  have gs: "getopt_loop [(CHR ''s'', ''0x01020304'')] (initial_state :: nat state)
             = (None, initial_state\<lparr>serial_nr := 0x01020304, action := CHR ''s''\<rparr>)"
    by (simp add: parse_hex_serial)
  have si: "selected (requested_index (initial_state\<lparr>device_id := 42, action := CHR ''i''\<rparr> :: nat state))
              (matched (devices example_usb)) = Some (1, pcan_device, hd pcan_types)"
    by (simp add: requested_index_def selected_example)
  have ss: "selected (requested_index (initial_state\<lparr>serial_nr := 0x01020304, action := CHR ''s''\<rparr> :: nat state))
              (matched (devices example_usb)) = Some (1, pcan_device, hd pcan_types)"
    by (simp add: requested_index_def selected_example)
  from set_actions_send_once [OF gi u si d] set_actions_send_once [OF gs u ss d]
  show ?thesis by (simp add: le_bytes_example)
qed

subsection \<open>The query\<close>

lemma exchange_length: "exchange usb h req = (r1, r2, resp, h2) \<Longrightarrow> length resp = length req"
  by (auto simp: exchange_def length_received_into split: prod.splits)

lemma le_value_slice:
  "length p = 16 \<Longrightarrow> le_value (take 4 (drop 2 p)) = le_value [p ! 2, p ! 3, p ! 4, p ! 5]"
  by (simp add: le_value_def)

lemma main_query:
  fixes usb :: "'h libusb" and st :: "'h state"
  assumes g: "getopt_loop opts initial_state = (None, st)"
    and a: "action st = CHR ''q''"
    and u: "init_r usb = 0" "0 \<le> device_list_r usb"
    and s: "selected (requested_index st) (matched (devices usb)) = Some (k, d, p)"
    and o: "\<not> open_r d < 0" and c: "config_descriptor_r d = 0"
    and e1: "exchange usb (handle d) (new_pkt 4 1) = (r1, r2, resp1, h2)"
    and e2: "exchange usb h2 (new_pkt 6 1) = (r3, r4, resp2, h4)"
  shows "fst (main usb opts) = Exit 0"
    and "calls (snd (main usb opts)) =
           [Open k, ClaimInterface, ResetDevice,
            BulkTransfer 0x1 (new_pkt 4 1), BulkTransfer 0x81 (new_pkt 4 1),
            BulkTransfer 0x1 (new_pkt 6 1), BulkTransfer 0x81 (new_pkt 6 1)] @ cleanup_calls"
    and "stdout (snd (main usb opts)) =
           header_lines d @ err_line r1 @ err_line r2 @ [DeviceIdLine (resp1 ! 2)]
           @ err_line r3 @ err_line r4
           @ [SerialNumberLine (le_value [resp2 ! 2, resp2 ! 3, resp2 ! 4, resp2 ! 5])]"
    and "stderr (snd (main usb opts)) = descriptor_failure (devices usb)"
proof -
  have a': "action st \<noteq> CHR 0x00" "action st \<noteq> CHR ''l''" using a by simp_all
  note m = main_performs [OF g a' u s o c]
  have l: "length resp2 = 16" using exchange_length [OF e2] by (simp add: new_pkt_eq)
  note q = action_q_eq [OF m(2) e1 e2]
  have mq: "main usb opts =
      (Exit 0, (action_q usb (prepared usb d st))
                 \<lparr>calls := calls (action_q usb (prepared usb d st)) @ cleanup_calls\<rparr>)"
    by (simp add: m(1) a Let_def)
  show "fst (main usb opts) = Exit 0" by (simp add: mq)
  show "calls (snd (main usb opts)) =
           [Open k, ClaimInterface, ResetDevice,
            BulkTransfer 0x1 (new_pkt 4 1), BulkTransfer 0x81 (new_pkt 4 1),
            BulkTransfer 0x1 (new_pkt 6 1), BulkTransfer 0x81 (new_pkt 6 1)] @ cleanup_calls"
    unfolding mq by (simp add: q m(3))
  show "stdout (snd (main usb opts)) =
           header_lines d @ err_line r1 @ err_line r2 @ [DeviceIdLine (resp1 ! 2)]
           @ err_line r3 @ err_line r4
           @ [SerialNumberLine (le_value [resp2 ! 2, resp2 ! 3, resp2 ! 4, resp2 ! 5])]"
    unfolding mq by (simp add: q m(4) le_value_slice [OF l])
  show "stderr (snd (main usb opts)) = descriptor_failure (devices usb)"
    unfolding mq by (simp add: q m(5))
qed

text \<open>
  C1. In a run of the query that opens the device, the bulk transfers are four: the
  packet 4, 1 and fourteen zero bytes is sent on endpoint 1 and a packet is read on
  endpoint \<open>0x81\<close>, then the packet 6, 1 and fourteen zero bytes is sent and a packet
  is read. With \<open>resp1\<close> and \<open>resp2\<close> the buffer after the first and after the second
  read, the device id printed is byte 2 of \<open>resp1\<close> and the serial number printed is
  bytes 2 to 5 of \<open>resp2\<close> read as a little-endian 32-bit number, whatever the byte
  order of the host; the rest of the output is the header of the device and the
  messages of the transfers that failed.
\<close>

theorem query_exchanges:
  fixes usb :: "'h libusb" and st :: "'h state"
  assumes "getopt_loop opts initial_state = (None, st)"
    and "action st = CHR ''q''"
    and "init_r usb = 0" and "0 \<le> device_list_r usb"
    and "selected (requested_index st) (matched (devices usb)) = Some (k, d, p)"
    and "\<not> open_r d < 0" and "config_descriptor_r d = 0"
    and "exchange usb (handle d) (4 # 1 # replicate 14 0) = (r1, r2, resp1, h2)"
    and "exchange usb h2 (6 # 1 # replicate 14 0) = (r3, r4, resp2, h4)"
  shows "filter is_transfer (calls (snd (main usb opts))) =
           [BulkTransfer 0x1 (4 # 1 # replicate 14 0), BulkTransfer 0x81 (4 # 1 # replicate 14 0),
            BulkTransfer 0x1 (6 # 1 # replicate 14 0), BulkTransfer 0x81 (6 # 1 # replicate 14 0)]
       \<and> stdout (snd (main usb opts)) =
           header_lines d @ err_line r1 @ err_line r2 @ [DeviceIdLine (resp1 ! 2)]
           @ err_line r3 @ err_line r4
           @ [SerialNumberLine (le_value [resp2 ! 2, resp2 ! 3, resp2 ! 4, resp2 ! 5])]"
proof -
  note m = main_query [OF assms(1-7) assms(8,9) [folded new_pkt_eq]]
  have "filter is_transfer (calls (snd (main usb opts))) =
           [BulkTransfer 0x1 (new_pkt 4 1), BulkTransfer 0x81 (new_pkt 4 1),
            BulkTransfer 0x1 (new_pkt 6 1), BulkTransfer 0x81 (new_pkt 6 1)]"
    by (simp add: m(2) is_transfer_def cleanup_calls_def)
  then show ?thesis by (simp add: m(3) new_pkt_eq)
qed

lemma example_exchanges:
  "exchange example_usb 0 (4 # 1 # replicate 14 0) = (0, 0, [4, 1, 0x2A] @ replicate 13 0, 2)"
  "exchange example_usb 2 (6 # 1 # replicate 14 0) = (0, 0, [6, 1, 4, 3, 2, 1] @ replicate 10 0, 4)"
  by (simp_all add: exchange_def example_usb_def received_into_def)

lemma le_value_example: "le_value [4, 3, 2, 1] = 0x01020304"
  by (simp add: le_value_def)

theorem query_exchanges_witness:
  "filter is_transfer (calls (snd (main example_usb [(CHR ''q'', [])]))) =
     [BulkTransfer 0x1 (4 # 1 # replicate 14 0), BulkTransfer 0x81 (4 # 1 # replicate 14 0),
      BulkTransfer 0x1 (6 # 1 # replicate 14 0), BulkTransfer 0x81 (6 # 1 # replicate 14 0)]
   \<and> stdout (snd (main example_usb [(CHR ''q'', [])])) =
     [EmptyLine, DeviceIdLine 0x2A, SerialNumberLine 0x01020304]"
proof -
  have u: "init_r example_usb = 0" "0 \<le> device_list_r example_usb"
    by (simp_all add: example_usb_def)
  have d: "\<not> open_r pcan_device < 0" "config_descriptor_r pcan_device = 0"
    by (simp_all add: pcan_device_def)
  have g: "getopt_loop [(CHR ''q'', [])] (initial_state :: nat state)
             = (None, initial_state\<lparr>action := CHR ''q''\<rparr>)"
    by simp
  have a: "action (initial_state\<lparr>action := CHR ''q''\<rparr> :: nat state) = CHR ''q''" by simp
  have s: "selected (requested_index (initial_state\<lparr>action := CHR ''q''\<rparr> :: nat state))
              (matched (devices example_usb)) = Some (1, pcan_device, hd pcan_types)"
    by (simp add: requested_index_def selected_example)
  have e1: "exchange example_usb (handle pcan_device) (4 # 1 # replicate 14 0)
              = (0, 0, [4, 1, 0x2A] @ replicate 13 0, 2)"
    using example_exchanges(1) by (simp add: pcan_device_def)
  have h: "header_lines pcan_device = [EmptyLine]"
    by (simp add: header_lines_def pcan_device_def)
  from query_exchanges [OF g a u s d e1 example_exchanges(2)]
  show ?thesis by (simp add: h err_line_def le_value_example)
qed

text \<open>
  C9. A transfer that fails does not end the query. Whatever the four return codes
  are, the run makes all four transfers, prints one message for each return code
  other than \<open>LIBUSB_SUCCESS\<close> (\<open>err_line\<close>), prints the device id and the serial
  number taken from the buffer as it then is, releases and closes the device, and
  ends with exit status 0. Nothing more is written to the standard error stream
  than the enumerator wrote.
\<close>

theorem failed_transfer_not_fatal:
  fixes usb :: "'h libusb" and st :: "'h state"
  assumes "getopt_loop opts initial_state = (None, st)"
    and "action st = CHR ''q''"
    and "init_r usb = 0" and "0 \<le> device_list_r usb"
    and "selected (requested_index st) (matched (devices usb)) = Some (k, d, p)"
    and "\<not> open_r d < 0" and "config_descriptor_r d = 0"
    and "exchange usb (handle d) (new_pkt 4 1) = (r1, r2, resp1, h2)"
    and "exchange usb h2 (new_pkt 6 1) = (r3, r4, resp2, h4)"
  shows "fst (main usb opts) = Exit 0
       \<and> calls (snd (main usb opts)) =
           [Open k, ClaimInterface, ResetDevice,
            BulkTransfer 0x1 (new_pkt 4 1), BulkTransfer 0x81 (new_pkt 4 1),
            BulkTransfer 0x1 (new_pkt 6 1), BulkTransfer 0x81 (new_pkt 6 1),
            FreeConfigDescriptor, AttachKernelDriver, ReleaseInterface, Close, LibusbExit]
       \<and> stdout (snd (main usb opts)) =
           header_lines d
           @ (if r1 \<noteq> LIBUSB_SUCCESS then [TransferErrorLine r1] else [])
           @ (if r2 \<noteq> LIBUSB_SUCCESS then [TransferErrorLine r2] else [])
           @ [DeviceIdLine (resp1 ! 2)]
           @ (if r3 \<noteq> LIBUSB_SUCCESS then [TransferErrorLine r3] else [])
           @ (if r4 \<noteq> LIBUSB_SUCCESS then [TransferErrorLine r4] else [])
           @ [SerialNumberLine (le_value [resp2 ! 2, resp2 ! 3, resp2 ! 4, resp2 ! 5])]
       \<and> stderr (snd (main usb opts)) = descriptor_failure (devices usb)"
  using main_query [OF assms]
  by (simp add: err_line_def LIBUSB_SUCCESS_def cleanup_calls_def)

lemma failing_exchanges:
  "exchange failing_usb 0 (new_pkt 4 1) = (- 7, - 7, new_pkt 4 1, 0)"
  "exchange failing_usb 0 (new_pkt 6 1) = (- 7, - 7, new_pkt 6 1, 0)"
  by (simp_all add: exchange_def failing_usb_def example_usb_def received_into_def)

theorem failed_transfer_not_fatal_witness:
  "fst (main failing_usb [(CHR ''q'', [])]) = Exit 0
   \<and> calls (snd (main failing_usb [(CHR ''q'', [])])) =
       [Open 1, ClaimInterface, ResetDevice,
        BulkTransfer 0x1 (new_pkt 4 1), BulkTransfer 0x81 (new_pkt 4 1),
        BulkTransfer 0x1 (new_pkt 6 1), BulkTransfer 0x81 (new_pkt 6 1),
        FreeConfigDescriptor, AttachKernelDriver, ReleaseInterface, Close, LibusbExit]
   \<and> stdout (snd (main failing_usb [(CHR ''q'', [])])) =
       [EmptyLine, TransferErrorLine (- 7), TransferErrorLine (- 7), DeviceIdLine 0,
        TransferErrorLine (- 7), TransferErrorLine (- 7), SerialNumberLine 0]
   \<and> stderr (snd (main failing_usb [(CHR ''q'', [])])) = []"
proof -
  have dv: "devices failing_usb = devices example_usb"
    by (simp add: failing_usb_def)
  have u: "init_r failing_usb = 0" "0 \<le> device_list_r failing_usb"
    by (simp_all add: failing_usb_def example_usb_def)
  have d: "\<not> open_r pcan_device < 0" "config_descriptor_r pcan_device = 0"
    by (simp_all add: pcan_device_def)
  have g: "getopt_loop [(CHR ''q'', [])] (initial_state :: nat state)
             = (None, initial_state\<lparr>action := CHR ''q''\<rparr>)"
    by simp
  have a: "action (initial_state\<lparr>action := CHR ''q''\<rparr> :: nat state) = CHR ''q''" by simp
  have s: "selected (requested_index (initial_state\<lparr>action := CHR ''q''\<rparr> :: nat state))
              (matched (devices failing_usb)) = Some (1, pcan_device, hd pcan_types)"
    by (simp add: requested_index_def selected_example dv)
  have e1: "exchange failing_usb (handle pcan_device) (new_pkt 4 1) = (- 7, - 7, new_pkt 4 1, 0)"
    using failing_exchanges(1) by (simp add: pcan_device_def)
  have h: "header_lines pcan_device = [EmptyLine]"
    by (simp add: header_lines_def pcan_device_def)
  have f: "descriptor_failure (devices failing_usb) = []"
    by (simp add: dv descriptor_failure_def example_usb_def hub_device_def pcan_device_def)
  have v: "new_pkt 4 1 ! 2 = 0" "le_value [new_pkt 6 1 ! 2, new_pkt 6 1 ! 3, new_pkt 6 1 ! 4, new_pkt 6 1 ! 5] = 0"
    by (simp_all add: new_pkt_eq le_value_def numeral_eq_Suc)
  from failed_transfer_not_fatal [OF g a u s d e1 failing_exchanges(2)]
  show ?thesis by (simp add: h f v LIBUSB_SUCCESS_def)
qed

subsection \<open>Listing and selection in \<open>main\<close>\<close>

lemma requested_index_mod: "requested_index st = unat (device_idx st) mod 256"
  by (simp add: requested_index_def unsigned_ucast_eq take_bit_eq_mod)

lemma run_list:
  assumes "action st = CHR ''l''" and "init_r usb = 0" and "0 \<le> device_list_r usb"
  shows "run usb st =
           (case dev_handle (browsed usb st) of
              None \<Rightarrow> (Exit 1, (browsed usb st)\<lparr>stderr := stderr (browsed usb st) @ [NotFoundLine]\<rparr>)
            | Some h \<Rightarrow> (Exit 0, browsed usb st))"
proof -
  have b: "browse_devices usb (ucast (device_idx st)) True st = (0, browsed usb st)"
    using assms(1) by (simp add: browsed_def browse_devices_ok [OF assms(3)])
  have a: "action (browsed usb st) = CHR ''l''"
    by (simp add: browsed_fields(1) [OF assms(3)] assms(1))
  show ?thesis
    using assms(1,2) a by (simp add: run_def b split: option.splits)
qed

text \<open>
  C4, as the code has it. In list mode with the device list retrieved, the list lines
  printed are those of the catalog-matched devices enumerated, each with its index,
  its vendor and product id, its bus number and address and its catalog name
  (\<open>list_line\<close>). The enumerator also opens a device in list mode: the matched device
  whose index is the requested one, when there is one, and no other device. The run
  ends with exit status 0 when that device was opened and with exit status 1 when
  there is no such device or it could not be opened.
\<close>

theorem list_mode:
  fixes usb :: "'h libusb" and st :: "'h state"
  assumes "getopt_loop opts initial_state = (None, st)"
    and "action st = CHR ''l''"
    and "init_r usb = 0" and "0 \<le> device_list_r usb"
  shows "filter is_list_line (stdout (snd (main usb opts))) = listing (matched (devices usb))
       \<and> listing (matched (devices usb))
           = map (\<lambda>(i, k, d, p). ListLine i (idVendor d) (idProduct d) (bus_number d)
                                    (device_address d) (name p))
               (enumerate 0 (matched (devices usb)))
       \<and> calls (snd (main usb opts)) =
           (case selected (requested_index st) (matched (devices usb)) of
              None \<Rightarrow> [] | Some (k, d, p) \<Rightarrow> [Open k])
       \<and> fst (main usb opts) =
           (case selected (requested_index st) (matched (devices usb)) of
              None \<Rightarrow> Exit 1 | Some (k, d, p) \<Rightarrow> if open_r d < 0 then Exit 1 else Exit 0)"
proof -
  note m = main_run [OF assms(1)]
  note r = run_list [OF assms(2-4)]
  note f = browsed_fields [OF assms(4), of st]
  note s = browsed_selection [OF assms(4), of st]
  have out: "stdout (snd (main usb opts)) = stdout (browsed usb st)"
    by (simp add: m(1) r split: option.splits)
  have "filter is_list_line (stdout (snd (main usb opts))) = listing (matched (devices usb))"
    unfolding out by (simp add: f(6) m(2) assms(2) filter_list_browse_output listing_def)
  moreover have "listing (matched (devices usb))
           = map (\<lambda>(i, k, d, p). ListLine i (idVendor d) (idProduct d) (bus_number d)
                                    (device_address d) (name p))
               (enumerate 0 (matched (devices usb)))"
    by (simp add: listing_def list_line_def)
  moreover have "calls (snd (main usb opts)) =
           (case selected (requested_index st) (matched (devices usb)) of
              None \<Rightarrow> [] | Some (k, d, p) \<Rightarrow> [Open k])"
    using s by (simp add: m(1,4) r split: option.splits prod.splits)
  moreover have "fst (main usb opts) =
           (case selected (requested_index st) (matched (devices usb)) of
              None \<Rightarrow> Exit 1 | Some (k, d, p) \<Rightarrow> if open_r d < 0 then Exit 1 else Exit 0)"
    using s by (auto simp: m(1) r split: option.splits prod.splits if_splits)
  ultimately show ?thesis by blast
qed

theorem list_mode_witness:
  "filter is_list_line (stdout (snd (main example_usb [(CHR ''l'', [])])))
     = [ListLine 0 0x0c72 0x000c 1 5 ''PCAN-USB'']
   \<and> calls (snd (main example_usb [(CHR ''l'', [])])) = [Open 1]
   \<and> fst (main example_usb [(CHR ''l'', [])]) = Exit 0"
proof -
  have u: "init_r example_usb = 0" "0 \<le> device_list_r example_usb"
    by (simp_all add: example_usb_def)
  have g: "getopt_loop [(CHR ''l'', [])] (initial_state :: nat state)
             = (None, initial_state\<lparr>action := CHR ''l''\<rparr>)"
    by simp
  have a: "action (initial_state\<lparr>action := CHR ''l''\<rparr> :: nat state) = CHR ''l''" by simp
  have s: "selected (requested_index (initial_state\<lparr>action := CHR ''l''\<rparr> :: nat state))
              (matched (devices example_usb)) = Some (1, pcan_device, hd pcan_types)"
    by (simp add: requested_index_def selected_example)
  have l: "map (\<lambda>(i, k, d, p). ListLine i (idVendor d) (idProduct d) (bus_number d)
                                    (device_address d) (name p))
               (enumerate 0 (matched (devices example_usb)))
           = [ListLine 0 0x0c72 0x000c 1 5 ''PCAN-USB'']"
    by (simp add: matched_example enumerate_simps pcan_types_def pcan_device_def)
  have o: "\<not> open_r pcan_device < 0" by (simp add: pcan_device_def)
  from list_mode [OF g a u] show ?thesis
    by (simp add: requested_index_def selected_example l o)
qed

theorem list_mode_counterexample:
  "action (snd (main example_usb [(CHR ''l'', [])])) = CHR ''l''
   \<and> calls (snd (main example_usb [(CHR ''l'', [])])) = [Open 1]
   \<and> dev_handle (snd (main example_usb [(CHR ''l'', [])])) = Some (handle pcan_device)"
  by (simp add: main_def run_def browse_devices_def example_usb_def hub_device_def
      pcan_device_def lookup_type_def pcan_types_def)

subsection \<open>The requested index\<close>

lemma transfer_device: "device (transfer usb ep st) = device st"
  by (simp add: transfer_def split: option.splits prod.splits)

lemma perform_device: "device (snd (perform usb d st)) = device st"
  by (simp add: perform_def Let_def action_i_def action_s_def action_q_def transfer_device)

lemma run_device:
  assumes "action st \<noteq> CHR 0x00" and "init_r usb = 0" and "0 \<le> device_list_r usb"
  shows "device (snd (run usb st)) = device (browsed usb st)"
proof -
  have b: "browse_devices usb (ucast (device_idx st)) (action st = CHR ''l'') st = (0, browsed usb st)"
    by (simp add: browsed_def browse_devices_ok [OF assms(3)])
  show ?thesis
    unfolding run_def b using assms(1,2)
    by (simp add: perform_device split: option.splits prod.splits)
qed

lemma parse_256: "parse_long 0 ''256'' = Inr 256"
proof -
  have "list_all decimal_digit ''256'' \<and> decimal_value ''256'' = 256"
    by (simp add: decimal_digit_def decimal_value_def)
  then show ?thesis using parse_long_decimal [of "''256''"] by simp
qed

lemma parse_1: "parse_long 0 ''1'' = Inr 1"
proof -
  have "list_all decimal_digit ''1'' \<and> decimal_value ''1'' = 1"
    by (simp add: decimal_digit_def decimal_value_def)
  then show ?thesis using parse_long_decimal [of "''1''"] by simp
qed

text \<open>
  C8, as the code has it. The index that counts is the one the enumerator receives:
  the requested index converted to \<open>uint8_t\<close>, that is, reduced modulo 256. When the
  program has an action, libusb is initialised and the device list is retrieved, and
  no catalog-matched device enumerated has that index (so also when there is no such
  device at all), the run ends with exit status 1 and the message of
  \<open>NotFoundLine\<close> as the last line of the standard error stream; it makes no libusb
  call on a device and does not crash.
\<close>

theorem device_not_found:
  fixes usb :: "'h libusb" and st :: "'h state"
  assumes "getopt_loop opts initial_state = (None, st)"
    and "action st \<noteq> CHR 0x00"
    and "init_r usb = 0" and "0 \<le> device_list_r usb"
    and "length (matched (devices usb)) \<le> unat (device_idx st) mod 256"
  shows "fst (main usb opts) = Exit 1
       \<and> stderr (snd (main usb opts)) = descriptor_failure (devices usb) @ [NotFoundLine]
       \<and> calls (snd (main usb opts)) = []"
proof -
  note m = main_run [OF assms(1)]
  have s: "selected (requested_index st) (matched (devices usb)) = None"
    using assms(5) by (simp add: selected_def requested_index_mod)
  note r = run_not_found [OF assms(2-4) s]
  show ?thesis
    by (simp add: m r browsed_fields(7) [OF assms(4)])
qed

theorem device_not_found_witness:
  "fst (main example_usb [(CHR ''q'', []), (CHR ''d'', ''1'')]) = Exit 1
   \<and> stderr (snd (main example_usb [(CHR ''q'', []), (CHR ''d'', ''1'')])) = [NotFoundLine]
   \<and> calls (snd (main example_usb [(CHR ''q'', []), (CHR ''d'', ''1'')])) = []
   \<and> matched (devices hub_only_usb) = []
   \<and> fst (main hub_only_usb [(CHR ''q'', [])]) = Exit 1
   \<and> stderr (snd (main hub_only_usb [(CHR ''q'', [])])) = [NotFoundLine]
   \<and> calls (snd (main hub_only_usb [(CHR ''q'', [])])) = []"
proof -
  have u: "init_r example_usb = 0" "0 \<le> device_list_r example_usb"
    by (simp_all add: example_usb_def)
  have u': "init_r hub_only_usb = 0" "0 \<le> device_list_r hub_only_usb"
    by (simp_all add: hub_only_usb_def example_usb_def)
  have g: "getopt_loop [(CHR ''q'', []), (CHR ''d'', ''1'')] (initial_state :: nat state)
             = (None, initial_state\<lparr>action := CHR ''q'', device_idx := 1\<rparr>)"
    by (simp add: parse_1)
  have g': "getopt_loop [(CHR ''q'', [])] (initial_state :: nat state)
             = (None, initial_state\<lparr>action := CHR ''q''\<rparr>)"
    by simp
  have a: "action (initial_state\<lparr>action := CHR ''q'', device_idx := 1\<rparr> :: nat state) \<noteq> CHR 0x00"
    "action (initial_state\<lparr>action := CHR ''q''\<rparr> :: nat state) \<noteq> CHR 0x00"
    by simp_all
  have n: "length (matched (devices example_usb))
             \<le> unat (device_idx (initial_state\<lparr>action := CHR ''q'', device_idx := 1\<rparr> :: nat state)) mod 256"
    by (simp add: matched_example)
  have e: "matched (devices hub_only_usb) = []"
    by (simp add: hub_only_usb_def matched_def matched_from_Cons matched_from_Nil hub_device_def
        pcan_device_def lookup_type_def pcan_types_def)
  have n': "length (matched (devices hub_only_usb))
             \<le> unat (device_idx (initial_state\<lparr>action := CHR ''q''\<rparr> :: nat state)) mod 256"
    by (simp add: e)
  have f: "descriptor_failure (devices example_usb) = []" "descriptor_failure (devices hub_only_usb) = []"
    by (simp_all add: hub_only_usb_def descriptor_failure_def example_usb_def hub_device_def
        pcan_device_def)
  from device_not_found [OF g a(1) u n] device_not_found [OF g' a(2) u' n'] e f
  show ?thesis by simp
qed

theorem device_not_found_counterexample:
  "length (matched (devices example_usb)) \<le> unat (256 :: u32)
   \<and> getopt_loop [(CHR ''q'', []), (CHR ''d'', ''256'')] (initial_state :: nat state)
       = (None, initial_state\<lparr>action := CHR ''q'', device_idx := 256\<rparr>)
   \<and> fst (main example_usb [(CHR ''q'', []), (CHR ''d'', ''256'')]) = Exit 0
   \<and> stderr (snd (main example_usb [(CHR ''q'', []), (CHR ''d'', ''256'')])) = []
   \<and> stdout (snd (main example_usb [(CHR ''q'', []), (CHR ''d'', ''256'')]))
       = [EmptyLine, DeviceIdLine 0x2A, SerialNumberLine 0x01020304]"
proof -
  have u: "init_r example_usb = 0" "0 \<le> device_list_r example_usb"
    by (simp_all add: example_usb_def)
  have d: "\<not> open_r pcan_device < 0" "config_descriptor_r pcan_device = 0"
    by (simp_all add: pcan_device_def)
  have g: "getopt_loop [(CHR ''q'', []), (CHR ''d'', ''256'')] (initial_state :: nat state)
             = (None, initial_state\<lparr>action := CHR ''q'', device_idx := 256\<rparr>)"
    by (simp add: parse_256)
  have a: "action (initial_state\<lparr>action := CHR ''q'', device_idx := 256\<rparr> :: nat state) = CHR ''q''"
    by simp
  have s: "selected (requested_index (initial_state\<lparr>action := CHR ''q'', device_idx := 256\<rparr> :: nat state))
              (matched (devices example_usb)) = Some (1, pcan_device, hd pcan_types)"
    by (simp add: requested_index_def selected_example)
  have e1: "exchange example_usb (handle pcan_device) (new_pkt 4 1)
              = (0, 0, [4, 1, 0x2A] @ replicate 13 0, 2)"
    using example_exchanges(1) by (simp add: pcan_device_def new_pkt_eq)
  have e2: "exchange example_usb 2 (new_pkt 6 1) = (0, 0, [6, 1, 4, 3, 2, 1] @ replicate 10 0, 4)"
    using example_exchanges(2) by (simp add: new_pkt_eq)
  have h: "header_lines pcan_device = [EmptyLine]"
    by (simp add: header_lines_def pcan_device_def)
  have f: "descriptor_failure (devices example_usb) = []"
    by (simp add: descriptor_failure_def example_usb_def hub_device_def pcan_device_def)
  note m = main_query [OF g a u s d e1 e2]
  have l: "length (matched (devices example_usb)) \<le> unat (256 :: u32)"
    by (simp add: matched_example)
  from m(1,3,4) l g show ?thesis
    by (simp add: h f err_line_def le_value_example)
qed

text \<open>
  C10. \<open>-d\<close> stores the 32-bit value that \<open>parse_long\<close> yields in \<open>device_idx\<close>, and
  \<open>main\<close> passes it to \<open>browse_devices\<close> as a \<open>uint8_t\<close>. So, when the program has an
  action, libusb is initialised and the device list is retrieved, the device selected
  (\<open>ctx->device\<close>) is the catalog-matched device whose index is the value modulo 256,
  and none when no matched device has that index: \<open>-d 256\<close> selects the device of
  index 0.
\<close>

theorem device_index_truncated:
  fixes usb :: "'h libusb" and st s :: "'h state"
  assumes "getopt_loop opts initial_state = (None, st)"
    and "action st \<noteq> CHR 0x00"
    and "init_r usb = 0" and "0 \<le> device_list_r usb"
  shows "device (snd (main usb opts))
           = map_option (\<lambda>(k, d, p). (k, d))
               (selected (unat (device_idx st) mod 256) (matched (devices usb)))
       \<and> (parse_long 0 arg = Inr v \<longrightarrow>
            getopt_loop ((CHR ''d'', arg) # os) s = getopt_loop os (s\<lparr>device_idx := v\<rparr>))"
proof -
  note m = main_run [OF assms(1)]
  have "device (snd (main usb opts)) = device (browsed usb st)"
    by (simp add: m(1) run_device [OF assms(2-4)])
  also have "\<dots> = map_option (\<lambda>(k, d, p). (k, d))
               (selected (requested_index st) (matched (devices usb)))"
    using browsed_selection [OF assms(4), of st] by (simp split: option.splits prod.splits)
  finally show ?thesis by (simp add: requested_index_mod)
qed

theorem device_index_truncated_witness:
  "parse_long 0 ''256'' = Inr 256
   \<and> getopt_loop [(CHR ''d'', ''256'')] (initial_state :: nat state)
       = (None, initial_state\<lparr>device_idx := 256\<rparr>)
   \<and> unat (256 :: u32) mod 256 = 0
   \<and> selected 0 (matched (devices example_usb)) = Some (1, pcan_device, hd pcan_types)
   \<and> device (snd (main example_usb [(CHR ''q'', []), (CHR ''d'', ''256'')])) = Some (1, pcan_device)"
proof -
  have u: "init_r example_usb = 0" "0 \<le> device_list_r example_usb"
    by (simp_all add: example_usb_def)
  have g: "getopt_loop [(CHR ''q'', []), (CHR ''d'', ''256'')] (initial_state :: nat state)
             = (None, initial_state\<lparr>action := CHR ''q'', device_idx := 256\<rparr>)"
    by (simp add: parse_256)
  have a: "action (initial_state\<lparr>action := CHR ''q'', device_idx := 256\<rparr> :: nat state) \<noteq> CHR 0x00"
    by simp
  from device_index_truncated [OF g a u, of "''256''" 256 "[]" initial_state]
  show ?thesis by (simp add: parse_256 selected_example)
qed

subsection \<open>Command packets\<close>

lemma sent_packets_append: "sent_packets (cs @ cs') = sent_packets cs @ sent_packets cs'"
  by (simp add: sent_packets_def map_filter_def)

lemma sent_packets_simps:
  "sent_packets [] = []"
  "sent_packets (BulkTransfer ep buf # cs) = (if ep AND 0x80 = 0 then [buf] else []) @ sent_packets cs"
  "sent_packets (Open k # cs) = sent_packets cs"
  "sent_packets (ClaimInterface # cs) = sent_packets cs"
  "sent_packets (ResetDevice # cs) = sent_packets cs"
  "sent_packets (FreeConfigDescriptor # cs) = sent_packets cs"
  "sent_packets (AttachKernelDriver # cs) = sent_packets cs"
  "sent_packets (ReleaseInterface # cs) = sent_packets cs"
  "sent_packets (Close # cs) = sent_packets cs"
  "sent_packets (LibusbExit # cs) = sent_packets cs"
  by (simp_all add: sent_packets_def map_filter_simps)

lemma transfer_sent:
  "sent_packets (calls (transfer usb ep st)) =
     sent_packets (calls st) @ (if dev_handle st \<noteq> None \<and> ep AND 0x80 = 0 then [pkt st] else [])"
  by (auto simp: transfer_def sent_packets_append sent_packets_simps split: option.splits prod.splits)

lemma transfer_handle: "(dev_handle (transfer usb ep st) = None) = (dev_handle st = None)"
  by (simp add: transfer_def split: option.splits prod.splits)

lemma command_packets:
  "command_packet (4 # 2 # b # replicate 13 0)"
  "command_packet (6 # 2 # le_bytes sn @ replicate 10 0)"
  "command_packet (4 # 1 # replicate 14 0)"
  "command_packet (6 # 1 # replicate 14 0)"
  by (simp_all add: command_packet_def le_bytes_def)

lemma action_i_sent:
  "list_all command_packet (sent_packets (calls st)) \<Longrightarrow>
   list_all command_packet (sent_packets (calls (action_i usb st)))"
proof -
  have p: "(new_pkt 4 2)[2 := device_id st] = 4 # 2 # device_id st # replicate 13 0"
    by (simp add: new_pkt_eq numeral_eq_Suc)
  show "list_all command_packet (sent_packets (calls st)) \<Longrightarrow>
        list_all command_packet (sent_packets (calls (action_i usb st)))"
    unfolding action_i_def p by (simp add: transfer_sent command_packets)
qed

lemma action_s_sent:
  "list_all command_packet (sent_packets (calls st)) \<Longrightarrow>
   list_all command_packet (sent_packets (calls (action_s usb st)))"
  unfolding action_s_def Let_def
  by (simp add: transfer_sent put_serial_new_pkt command_packets)

lemma action_q_sent:
  assumes "list_all command_packet (sent_packets (calls st))"
  shows "list_all command_packet (sent_packets (calls (action_q usb st)))"
proof -
  define s1 where "s1 = transfer usb 0x1 (st\<lparr>pkt := new_pkt 4 1\<rparr>)"
  define s2 where "s2 = transfer usb 0x81 s1"
  define s4 where "s4 = s2\<lparr>device_id := pkt s2 ! 2,
                            stdout := stdout s2 @ [DeviceIdLine (pkt s2 ! 2)], pkt := new_pkt 6 1\<rparr>"
  define s5 where "s5 = transfer usb 0x1 s4"
  define s6 where "s6 = transfer usb 0x81 s5"
  have c1: "list_all command_packet (sent_packets (calls s1))"
    using assms by (simp add: s1_def transfer_sent new_pkt_eq command_packets)
  have c2: "list_all command_packet (sent_packets (calls s2))"
    using c1 by (simp add: s2_def transfer_sent)
  have c5: "list_all command_packet (sent_packets (calls s5))"
    using c2 by (simp add: s5_def s4_def transfer_sent new_pkt_eq command_packets)
  have c6: "list_all command_packet (sent_packets (calls s6))"
    using c5 by (simp add: s6_def transfer_sent)
  have "calls (action_q usb st) = calls s6"
    by (simp add: action_q_def Let_def s6_def s5_def s4_def s2_def s1_def)
  then show ?thesis using c6 by simp
qed

lemma perform_sent:
  assumes "list_all command_packet (sent_packets (calls st))"
  shows "list_all command_packet (sent_packets (calls (snd (perform usb d st))))"
proof -
  define s4 where "s4 = st\<lparr>calls := calls st @ [ClaimInterface, ResetDevice],
                            stdout := stdout st @ header_lines d\<rparr>"
  have c4: "list_all command_packet (sent_packets (calls s4))"
    using assms by (simp add: s4_def sent_packets_append sent_packets_simps)
  define s7 where "s7 = (if action st = CHR ''i'' then action_i usb s4
                 else if action st = CHR ''s'' then action_s usb s4
                 else if action st = CHR ''q'' then action_q usb s4
                 else s4)"
  have c7: "list_all command_packet (sent_packets (calls s7))"
    using c4 by (simp add: s7_def action_i_sent action_s_sent action_q_sent)
  show ?thesis
  proof (cases "\<not> descriptor_r d < 0 \<and> config_descriptor_r d = 0")
    case True
    then have "calls (snd (perform usb d st)) = calls s7 @ cleanup_calls"
      by (simp add: perform_eq Let_def s7_def s4_def)
    then show ?thesis
      using c7 by (simp add: sent_packets_append sent_packets_simps cleanup_calls_def)
  next
    case False
    then show ?thesis
      using assms by (auto simp: perform_def Let_def sent_packets_append sent_packets_simps)
  qed
qed

lemma browse_devices_sent:
  "sent_packets (calls (snd (browse_devices usb idx l st))) = sent_packets (calls st)"
proof (cases "device_list_r usb < 0")
  case True
  then show ?thesis by (simp add: browse_devices_def)
next
  case False
  then have ok: "0 \<le> device_list_r usb" by simp
  show ?thesis
    using browse_loop_selection [of idx l "devices usb" 0 0
        "st\<lparr>device := None, ctx_pcan_type := None, dev_handle := None\<rparr>"]
    by (auto simp: browse_devices_ok [OF ok] sent_packets_append sent_packets_simps
        split: option.splits prod.splits if_splits)
qed

lemma run_sent:
  assumes "list_all command_packet (sent_packets (calls st))"
  shows "list_all command_packet (sent_packets (calls (snd (run usb st))))"
proof -
  obtain r st1 where b: "browse_devices usb (ucast (device_idx st)) (action st = CHR ''l'') st = (r, st1)"
    by (cases "browse_devices usb (ucast (device_idx st)) (action st = CHR ''l'') st")
  have c1: "list_all command_packet (sent_packets (calls st1))"
    using browse_devices_sent [of usb "ucast (device_idx st)" "action st = CHR ''l''" st] assms
    by (simp add: b)
  show ?thesis
    unfolding run_def b using assms c1
    by (simp add: perform_sent split: option.splits prod.splits)
qed

text \<open>
  C5. In every run of \<open>main\<close>, whatever the options and whatever libusb answers, each
  packet sent on an OUT endpoint is a command packet: 16 bytes long, with header 4, 2
  and zero from byte 3 on, or header 6, 2 and zero from byte 6 on, or header 4, 1 or
  6, 1 and zero from byte 2 on.
\<close>

theorem packets_zero_padded:
  fixes usb :: "'h libusb"
  shows "\<forall>p \<in> set (sent_packets (calls (snd (main usb opts)))). command_packet p"
proof -
  obtain x and st :: "'h state" where g: "getopt_loop opts initial_state = (x, st)"
    by (cases "getopt_loop opts (initial_state :: 'h state)")
  have c: "calls st = []" using getopt_loop_frame [OF g] by simp
  have "list_all command_packet (sent_packets (calls (snd (main usb opts))))"
  proof (cases x)
    case None
    then show ?thesis
      using run_sent [of st usb] by (simp add: main_def g c sent_packets_simps)
  next
    case (Some status)
    then show ?thesis by (simp add: main_def g c sent_packets_simps)
  qed
  then show ?thesis by (simp add: list_all_iff)
qed

theorem packets_zero_padded_witness:
  "sent_packets (calls (snd (main example_usb [(CHR ''q'', [])])))
     = [4 # 1 # replicate 14 0, 6 # 1 # replicate 14 0]
   \<and> command_packet (4 # 1 # replicate 14 0) \<and> command_packet (6 # 1 # replicate 14 0)
   \<and> sent_packets (calls (snd (main example_usb [(CHR ''s'', ''0x01020304'')])))
     = [6 # 2 # 4 # 3 # 2 # 1 # replicate 10 0]
   \<and> command_packet (6 # 2 # 4 # 3 # 2 # 1 # replicate 10 0)"
proof -
  have u: "init_r example_usb = 0" "0 \<le> device_list_r example_usb"
    by (simp_all add: example_usb_def)
  have d: "\<not> open_r pcan_device < 0" "config_descriptor_r pcan_device = 0"
    by (simp_all add: pcan_device_def)
  have g: "getopt_loop [(CHR ''q'', [])] (initial_state :: nat state)
             = (None, initial_state\<lparr>action := CHR ''q''\<rparr>)"
    by simp
  have a: "action (initial_state\<lparr>action := CHR ''q''\<rparr> :: nat state) = CHR ''q''" by simp
  have s: "selected (requested_index (initial_state\<lparr>action := CHR ''q''\<rparr> :: nat state))
              (matched (devices example_usb)) = Some (1, pcan_device, hd pcan_types)"
    by (simp add: requested_index_def selected_example)
  have e1: "exchange example_usb (handle pcan_device) (new_pkt 4 1)
              = (0, 0, [4, 1, 0x2A] @ replicate 13 0, 2)"
    using example_exchanges(1) by (simp add: pcan_device_def new_pkt_eq)
  have e2: "exchange example_usb 2 (new_pkt 6 1) = (0, 0, [6, 1, 4, 3, 2, 1] @ replicate 10 0, 4)"
    using example_exchanges(2) by (simp add: new_pkt_eq)
  have q: "sent_packets (calls (snd (main example_usb [(CHR ''q'', [])])))
             = [4 # 1 # replicate 14 0, 6 # 1 # replicate 14 0]"
    by (simp add: main_query(2) [OF g a u s d e1 e2] sent_packets_simps cleanup_calls_def new_pkt_eq)
  have gs: "getopt_loop [(CHR ''s'', ''0x01020304'')] (initial_state :: nat state)
             = (None, initial_state\<lparr>serial_nr := 0x01020304, action := CHR ''s''\<rparr>)"
    by (simp add: parse_hex_serial)
  have as: "action (initial_state\<lparr>serial_nr := 0x01020304, action := CHR ''s''\<rparr> :: nat state) = CHR ''s''"
    by simp
  have ss: "selected (requested_index (initial_state\<lparr>serial_nr := 0x01020304, action := CHR ''s''\<rparr> :: nat state))
              (matched (devices example_usb)) = Some (1, pcan_device, hd pcan_types)"
    by (simp add: requested_index_def selected_example)
  have w: "sent_packets (calls (snd (main example_usb [(CHR ''s'', ''0x01020304'')])))
             = [6 # 2 # 4 # 3 # 2 # 1 # replicate 10 0]"
    by (simp add: main_set_serial [OF gs as u ss d] sent_packets_simps cleanup_calls_def
        le_bytes_example)
  from packets_zero_padded [of example_usb "[(CHR ''q'', [])]"]
    packets_zero_padded [of example_usb "[(CHR ''s'', ''0x01020304'')]"]
  show ?thesis unfolding q w by simp
qed

subsection \<open>No null device is dereferenced\<close>

lemma getopt_loop_status:
  "getopt_loop opts st = (Some x, st') \<Longrightarrow> x = Exit 0 \<or> x = Exit 1"
proof (induction opts arbitrary: st st')
  case Nil
  then show ?case by simp
next
  case (Cons o1 opts)
  obtain opt optarg where o1: "o1 = (opt, optarg)" by (cases o1)
  show ?case
    using Cons.prems unfolding o1
    by (auto split: if_splits sum.splits dest!: Cons.IH)
qed

lemma perform_status: "fst (perform usb d st) \<noteq> Segfault"
  by (simp add: perform_def Let_def)

lemma run_status: "fst (run usb st) \<noteq> Segfault"
proof (cases "device_list_r usb < 0")
  case True
  then show ?thesis by (simp add: run_def browse_devices_def)
next
  case False
  then have ok: "0 \<le> device_list_r usb" by simp
  have b: "browse_devices usb (ucast (device_idx st)) (action st = CHR ''l'') st = (0, browsed usb st)"
    by (simp add: browsed_def browse_devices_ok [OF ok])
  have "dev_handle (browsed usb st) \<noteq> None \<Longrightarrow> device (browsed usb st) \<noteq> None"
    using browsed_selection [OF ok, of st] by (auto split: option.splits prod.splits)
  then show ?thesis
    unfolding run_def b by (auto simp: perform_status split: option.splits prod.splits)
qed

lemma main_status: "fst (main usb opts) \<noteq> Segfault"
proof -
  obtain x and st :: "'a state" where g: "getopt_loop opts initial_state = (x, st)"
    by (cases "getopt_loop opts (initial_state :: 'a state)")
  show ?thesis
  proof (cases x)
    case None
    then show ?thesis by (simp add: main_def g run_status)
  next
    case (Some status)
    with g getopt_loop_status [of opts initial_state status st] show ?thesis
      by (auto simp: main_def)
  qed
qed

end
